theory Spec2Isabelle
  imports Main "HOL-Library.Word" "HOL-Library.AList"
begin

section \<open>lib/connection.js: data model\<close>

text \<open>
  The RPC connection of node-hbase-client multiplexes calls over one socket. The file
  embeds \<^verbatim>\<open>Call\<close> and \<^verbatim>\<open>Connection\<close> of \<^verbatim>\<open>lib/connection.js\<close>. JavaScript objects
  live in a heap (a list of \<open>call\<close> records addressed by allocation index), because one
  Call object is shared by the pending-call table, by its deadline timer and by the
  closure of the response reader.
\<close>

type_synonym byte = "8 word"

text \<open>Values that the generic codec decodes; \<^verbatim>\<open>null\<close> is \<open>None\<close> of \<open>jsval option\<close>.\<close>

datatype jsval = JString string | JNumber int | JBytes "byte list"

text \<open>The error objects of \<^verbatim>\<open>./errors\<close> and plain \<^verbatim>\<open>Error\<close>s of the socket.\<close>

datatype error =
    Error string
  | ConnectionClosedException string
  | RemoteException string string
  | RemoteCallTimeoutException string

text \<open>What JavaScript throws when the code dereferences \<^verbatim>\<open>undefined\<close>, and the failure of
  an external reader.\<close>

datatype thrown = TypeError string | ReadFailure

text \<open>\<^verbatim>\<open>new Invocation(method, parameters)\<close>.\<close>

record invocation =
  method_inv :: string
  parameters :: "jsval list"

text \<open>The state of the \<^verbatim>\<open>Timeout\<close> object held in \<^verbatim>\<open>this.timer\<close>: \<open>Active\<close> after
  \<^verbatim>\<open>setTimeout\<close>, \<open>Inactive\<close> after \<^verbatim>\<open>clearTimeout\<close> or after it fired.\<close>

datatype timer_state = Active | Inactive

text \<open>What a Call does to the outside: \<^verbatim>\<open>clearTimeout(this.timer)\<close> and
  \<^verbatim>\<open>this.emit('done', this.error, this.value)\<close>, the latter with the listeners that are
  registered at that moment.\<close>

datatype effect = ClearTimeout | EmitDone "nat list" "error option" "jsval option"

record call =
  id_call :: int
  param :: invocation
  value_call :: "jsval option"
  error_call :: "error option"
  done_call :: bool
  startTime :: nat
  timeout :: int
  timer :: "timer_state option"
  listeners :: "nat list"
  effects :: "effect list"

section \<open>Call\<close>

text \<open>How string concatenation renders a number: its decimal digits, with a minus sign
  for a negative one. This is the rendering of integers of magnitude below \<open>10 ^ 21\<close>,
  among them every port number and every timeout that fits a timer; from there on
  JavaScript writes an exponent.\<close>

definition digit_char :: "nat \<Rightarrow> char" where
  "digit_char d = ''0123456789'' ! d"

fun decimal_digits :: "nat \<Rightarrow> string \<Rightarrow> string" where
  "decimal_digits n acc =
     (if n < 10 then digit_char n # acc
      else decimal_digits (n div 10) (digit_char (n mod 10) # acc))"

declare decimal_digits.simps [simp del]

definition number_to_string :: "int \<Rightarrow> string" where
  "number_to_string i =
     (if 0 \<le> i then decimal_digits (nat i) [] else CHR ''-'' # decimal_digits (nat (- i)) [])"

text \<open>\<^verbatim>\<open>this.emit('done', this.error, this.value)\<close>\<close>

definition emit_done :: "call \<Rightarrow> call" where
  "emit_done c = c\<lparr>effects := effects c @ [EmitDone (listeners c) (error_call c) (value_call c)]\<rparr>"

text \<open>\<^verbatim>\<open>if (this.timer) { clearTimeout(this.timer); }\<close>\<close>

definition clear_timer :: "call \<Rightarrow> call" where
  "clear_timer c =
     (case timer c of
        None \<Rightarrow> c
      | Some t \<Rightarrow> c\<lparr>timer := Some Inactive, effects := effects c @ [ClearTimeout]\<rparr>)"

definition callComplete :: "call \<Rightarrow> call" where
  "callComplete c =
     (let c1 = clear_timer c in
      if done_call c1 then c1
      else emit_done (c1\<lparr>done_call := True\<rparr>))"

definition setException :: "error \<Rightarrow> call \<Rightarrow> call" where
  "setException err c = callComplete (c\<lparr>error_call := Some err\<rparr>)"

definition setValue :: "jsval option \<Rightarrow> call \<Rightarrow> call" where
  "setValue v c = callComplete (c\<lparr>value_call := v\<rparr>)"

definition handleTimeoutit :: "call \<Rightarrow> call" where
  "handleTimeoutit c =
     setException (RemoteCallTimeoutException (number_to_string (timeout c) @ '' ms timeout'')) c"

text \<open>The three ways a Call is completed: a response (\<open>setValue\<close>), a failure handed over
  by the connection (\<open>setException\<close>) and the deadline handler.\<close>

datatype call_op = SetValue "jsval option" | SetException error | HandleTimeout

fun apply_op :: "call \<Rightarrow> call_op \<Rightarrow> call" where
  "apply_op c (SetValue v) = setValue v c"
| "apply_op c (SetException e) = setException e c"
| "apply_op c HandleTimeout = handleTimeoutit c"

fun run_ops :: "call \<Rightarrow> call_op list \<Rightarrow> call" where
  "run_ops c [] = c"
| "run_ops c (x # xs) = run_ops (apply_op c x) xs"

text \<open>The \<^verbatim>\<open>'done'\<close> emissions among the effects of a Call.\<close>

fun is_emit :: "effect \<Rightarrow> bool" where
  "is_emit (EmitDone ls e v) = True"
| "is_emit ClearTimeout = False"

definition emissions :: "call \<Rightarrow> effect list" where
  "emissions c = filter is_emit (effects c)"

section \<open>The process and its one Connection\<close>

text \<open>
  JavaScript numbers are IEEE-754 doubles. \<^verbatim>\<open>Call_Counter++\<close> is exact while the counter is
  below \<open>2 ^ 53\<close>; at \<open>2 ^ 53\<close> the sum \<open>2 ^ 53 + 1\<close> is not representable and rounds
  (to even) back to \<open>2 ^ 53\<close>. The counter starts at 0, so it never leaves \<open>0 .. 2 ^ 53\<close>.
\<close>

definition js_incr :: "int \<Rightarrow> int" where
  "js_incr n = (if n < 2 ^ 53 then n + 1 else n)"

record remote_address =
  host :: string
  port :: nat

text \<open>Where the response reader stands: not started, waiting in \<^verbatim>\<open>readFields\<close> for the
  9-byte prefix, or waiting in \<^verbatim>\<open>readBytes(size, ...)\<close> with the closure's \<^verbatim>\<open>call\<close>
  (\<open>None\<close> is \<^verbatim>\<open>undefined\<close>) and \<^verbatim>\<open>isError\<close>.\<close>

datatype reader_state = Idle | AwaitPrefix | AwaitPayload int "nat option" bool

text \<open>
  The process: the global \<^verbatim>\<open>Call_Counter\<close>, the clock behind \<^verbatim>\<open>Date.now()\<close>, the heap of
  Call objects, and the fields of the Connection. \<open>calls\<close> is \<^verbatim>\<open>this.calls\<close>: call id to
  the address of the Call object, in the order in which \<^verbatim>\<open>for (var id in calls)\<close> visits
  the keys (new keys come last, which for the increasing call ids is also the key order).
  \<open>out\<close> holds the chunks written to the socket, \<open>socket_ended\<close> whether
  \<^verbatim>\<open>socket.end()\<close> ran, \<open>emitted\<close> the events the Connection emitted.
\<close>

record world =
  Call_Counter :: int
  clock :: nat
  heap :: "call list"
  calls :: "(int \<times> nat) list"
  closed :: bool
  rpcTimeout :: int
  address :: remote_address
  out :: "byte list list"
  socket_ended :: bool
  emitted :: "string list"
  reader :: reader_state

text \<open>\<^verbatim>\<open>function Call(param, timeout)\<close>: returns the address of the new object.\<close>

definition new_Call :: "invocation \<Rightarrow> int \<Rightarrow> world \<Rightarrow> nat \<times> world" where
  "new_Call p t w =
     (let c = \<lparr>id_call = Call_Counter w, param = p, value_call = None, error_call = None,
               done_call = False, startTime = clock w, timeout = t,
               timer = (if t \<noteq> 0 \<and> t > 0 then Some Active else None),
               listeners = [], effects = []\<rparr>
      in (length (heap w), w\<lparr>Call_Counter := js_incr (Call_Counter w), heap := heap w @ [c]\<rparr>))"

text \<open>A method call on the Call object at address \<open>r\<close>.\<close>

definition modify :: "nat \<Rightarrow> (call \<Rightarrow> call) \<Rightarrow> world \<Rightarrow> world" where
  "modify r f w = w\<lparr>heap := (heap w)[r := f (heap w ! r)]\<rparr>"

text \<open>The event loop runs the handler of a timer only while the timer is active, and a
  timer that fires is no longer active.\<close>

definition timer_fires :: "nat \<Rightarrow> world \<Rightarrow> world option" where
  "timer_fires r w =
     (if r < length (heap w) \<and> timer (heap w ! r) = Some Active
      then Some (modify r (\<lambda>c. handleTimeoutit (c\<lparr>timer := Some Inactive\<rparr>)) w)
      else None)"

subsection \<open>External collaborators\<close>

text \<open>
  Modelled from the spec: \<^verbatim>\<open>DataOutputBuffer.writeInt\<close> and \<^verbatim>\<open>Bytes.putInt\<close> are not in
  \<^verbatim>\<open>lib/connection.js\<close>. The wire format is "binary, big-endian, byte-exact" with 4-byte
  integer fields: an integer is written as the four bytes of its 32-bit two's complement,
  most significant first.
\<close>

definition int32_bytes :: "int \<Rightarrow> byte list" where
  "int32_bytes v = map (\<lambda>k. word_of_int (v div 2 ^ (8 * k))) [3, 2, 1, 0]"

text \<open>Modelled from the spec: \<^verbatim>\<open>d.writeInt(v)\<close> appends the four bytes to the buffer.\<close>

definition writeInt :: "int \<Rightarrow> byte list \<Rightarrow> byte list" where
  "writeInt v d = d @ int32_bytes v"

text \<open>Modelled from the spec: \<^verbatim>\<open>Bytes.putInt(data, offset, v)\<close> overwrites four bytes in place.\<close>

definition putInt :: "byte list \<Rightarrow> nat \<Rightarrow> int \<Rightarrow> byte list" where
  "putInt data offset v = take offset data @ int32_bytes v @ drop (offset + 4) data"

text \<open>Modelled from the spec: reading a 4-byte big-endian signed integer back.\<close>

definition int32_of_bytes :: "byte list \<Rightarrow> int" where
  "int32_of_bytes bs =
     (let u = foldl (\<lambda>a b. a * 256 + uint b) 0 bs in if u < 2 ^ 31 then u else u - 2 ^ 32)"

text \<open>
  The helpers whose code is outside \<^verbatim>\<open>lib/connection.js\<close> and whose results the connection
  only passes on are parameters: the flag tests of \<^verbatim>\<open>ResponseFlag\<close>, the readers of
  \<^verbatim>\<open>DataInputBuffer\<close> (on the bytes still unread; \<open>None\<close> when the reader throws), the
  value codec \<^verbatim>\<open>HbaseObjectWritable.readFields\<close> (its \<^verbatim>\<open>instance\<close>), and the bytes that
  \<^verbatim>\<open>Invocation.write\<close> appends.
\<close>

record externals =
  isError :: "int \<Rightarrow> bool"
  isLength :: "int \<Rightarrow> bool"
  readInt :: "byte list \<Rightarrow> (int \<times> byte list) option"
  readString :: "byte list \<Rightarrow> (string \<times> byte list) option"
  readFields :: "byte list \<Rightarrow> (jsval option \<times> byte list) option"
  write_param :: "invocation \<Rightarrow> byte list"

subsection \<open>Connection\<close>

text \<open>The methods \<^verbatim>\<open>_cleanupCalls\<close>, \<^verbatim>\<open>_handleClose\<close>, \<^verbatim>\<open>_handleError\<close>, \<^verbatim>\<open>_nextResponse\<close>
  and \<^verbatim>\<open>_close\<close> are written without the leading underscore (\<open>close_socket\<close> for the
  last).\<close>

text \<open>The loop \<^verbatim>\<open>for (var id in calls) { calls[id].setException(err); }\<close> over the old table.\<close>

fun cleanup_loop :: "error \<Rightarrow> (int \<times> nat) list \<Rightarrow> world \<Rightarrow> world" where
  "cleanup_loop err [] w = w"
| "cleanup_loop err ((k, r) # t) w = cleanup_loop err t (modify r (setException err) w)"

definition cleanupCalls :: "error \<Rightarrow> world \<Rightarrow> world" where
  "cleanupCalls err w = (let t = calls w; w1 = w\<lparr>calls := []\<rparr> in cleanup_loop err t w1)"

definition closed_error :: "world \<Rightarrow> error" where
  "closed_error w =
     ConnectionClosedException
       (''socket '' @ host (address w) @ '':'' @ number_to_string (int (port (address w))) @ '' closed.'')"

definition handleClose :: "world \<Rightarrow> world" where
  "handleClose w =
     (let w1 = w\<lparr>closed := True\<rparr>;
          err = closed_error w1;
          w2 = cleanupCalls err w1
      in w2\<lparr>emitted := emitted w2 @ [''close'']\<rparr>)"

definition handleError :: "error \<Rightarrow> world \<Rightarrow> world" where
  "handleError err w = cleanupCalls err w"

definition sendParam :: "externals \<Rightarrow> nat \<Rightarrow> world \<Rightarrow> world" where
  "sendParam ext r w =
     (let c = heap w ! r;
          d = [];
          d = writeInt 0 d;
          d = writeInt (id_call c) d;
          d = d @ write_param ext (param c);
          data = d;
          dataLength = int (length d);
          data = putInt data 0 (dataLength - 4)
      in w\<lparr>out := out w @ [take (nat dataLength) (drop 0 data)]\<rparr>)"

definition close_socket :: "world \<Rightarrow> world" where
  "close_socket w = w\<lparr>socket_ended := True\<rparr>"

definition nextResponse :: "world \<Rightarrow> world" where
  "nextResponse w = w\<lparr>reader := AwaitPrefix\<rparr>"

text \<open>The three fields that \<^verbatim>\<open>readFields\<close> delivers.\<close>

record prefix =
  id_field :: int
  flag_field :: int
  size_field :: int

text \<open>The callback that \<^verbatim>\<open>_nextResponse\<close> hands to \<^verbatim>\<open>readFields\<close>, called with \<open>err\<close> and
  \<open>data\<close> (\<open>None\<close> is a missing argument). A method call on an \<^verbatim>\<open>undefined\<close> \<^verbatim>\<open>call\<close>
  throws.\<close>

definition on_prefix :: "externals \<Rightarrow> error option \<Rightarrow> prefix option \<Rightarrow> world \<Rightarrow> thrown + world" where
  "on_prefix ext err data w =
     (case data of
        None \<Rightarrow> Inl (TypeError ''data.size'')
      | Some d \<Rightarrow>
          (let ident = id_field d;
               size_rest = size_field d - 9;
               c = map_of (calls w) ident;
               w1 = w\<lparr>calls := AList.delete ident (calls w), reader := Idle\<rparr>
           in case err of
                Some e \<Rightarrow>
                  (case c of
                     None \<Rightarrow> Inl (TypeError ''call.setException'')
                   | Some r \<Rightarrow> Inr (close_socket (modify r (setException e) w1)))
              | None \<Rightarrow>
                  (let flag = flag_field d;
                       isErr = isError ext flag
                   in if \<not> isLength ext flag
                      then (case c of
                              None \<Rightarrow> Inl (TypeError ''call.setException'')
                            | Some r \<Rightarrow>
                                Inr (close_socket (modify r (setException
                                  (RemoteException ''RemoteException''
                                     (''missing data length packet, flag: '' @ number_to_string flag))) w1)))
                      else Inr (w1\<lparr>reader := AwaitPayload size_rest c isErr\<rparr>))))"

text \<open>The callback handed to \<^verbatim>\<open>readBytes\<close>, called with the payload \<open>buf\<close>; its own
  \<^verbatim>\<open>err\<close> argument is not looked at by the code.\<close>

definition on_payload :: "externals \<Rightarrow> byte list \<Rightarrow> world \<Rightarrow> thrown + world" where
  "on_payload ext buf w =
     (case reader w of
        AwaitPayload size_rest c isErr \<Rightarrow>
          (case readInt ext buf of
             None \<Rightarrow> Inl ReadFailure
           | Some (st, io1) \<Rightarrow>
               if isErr
               then (case readString ext io1 of
                       None \<Rightarrow> Inl ReadFailure
                     | Some (cls, io2) \<Rightarrow>
                         (case readString ext io2 of
                            None \<Rightarrow> Inl ReadFailure
                          | Some (msg, io3) \<Rightarrow>
                              (case c of
                                 None \<Rightarrow> Inl (TypeError ''call.setException'')
                               | Some r \<Rightarrow>
                                   Inr (nextResponse
                                     (modify r (setException (RemoteException cls msg)) w)))))
               else (case readFields ext io1 of
                       None \<Rightarrow> Inl ReadFailure
                     | Some (inst, io2) \<Rightarrow>
                         (case c of
                            None \<Rightarrow> Inl (TypeError ''call.id'')
                          | Some r \<Rightarrow> Inr (nextResponse (modify r (setValue inst) w)))))
      | Idle \<Rightarrow> Inr w
      | AwaitPrefix \<Rightarrow> Inr w)"

text \<open>One response frame: its prefix, then its payload.\<close>

definition receive_frame :: "externals \<Rightarrow> prefix \<Rightarrow> byte list \<Rightarrow> world \<Rightarrow> thrown + world" where
  "receive_frame ext d buf w =
     (case on_prefix ext None (Some d) w of
        Inl t \<Rightarrow> Inl t
      | Inr w1 \<Rightarrow> on_payload ext buf w1)"

text \<open>\<^verbatim>\<open>Connection.prototype.call\<close>; an absent or \<^verbatim>\<open>null\<close> \<open>rpcTimeout\<close> argument is \<open>None\<close>,
  and \<^verbatim>\<open>rpcTimeout || this.rpcTimeout\<close> takes the default for 0 as well.\<close>

definition call :: "externals \<Rightarrow> string \<Rightarrow> jsval list \<Rightarrow> int option \<Rightarrow> nat \<Rightarrow> world \<Rightarrow> world" where
  "call ext meth params timeout_arg callback w =
     (let t = (case timeout_arg of
                 None \<Rightarrow> rpcTimeout w
               | Some x \<Rightarrow> if x = 0 then rpcTimeout w else x);
          p = \<lparr>method_inv = meth, parameters = params\<rparr>;
          (r, w1) = new_Call p t w;
          w2 = w1\<lparr>calls := AList.update (id_call (heap w1 ! r)) r (calls w1)\<rparr>;
          w3 = modify r (\<lambda>c. c\<lparr>listeners := listeners c @ [callback]\<rparr>) w2
      in if closed w3 then handleClose w3 else sendParam ext r w3)"

text \<open>The Calls constructed one after the other, each with its parameter and timeout.\<close>

fun construct_all :: "(invocation \<times> int) list \<Rightarrow> world \<Rightarrow> world" where
  "construct_all [] w = w"
| "construct_all ((p, t) # rest) w = construct_all rest (snd (new_Call p t w))"

text \<open>A Call that has not been completed.\<close>

definition pending :: "call \<Rightarrow> bool" where
  "pending c \<longleftrightarrow> \<not> done_call c \<and> value_call c = None \<and> error_call c = None"

text \<open>The table holds references to objects of the heap, each under one key.\<close>

definition wf_world :: "world \<Rightarrow> bool" where
  "wf_world w \<longleftrightarrow> distinct (map snd (calls w)) \<and> (\<forall>r \<in> set (map snd (calls w)). r < length (heap w))"

text \<open>The world inside \<open>call\<close> just before the test of \<^verbatim>\<open>this.closed\<close>: the Call is
  constructed, stored in the table and has its listener.\<close>

definition call_registered :: "string \<Rightarrow> jsval list \<Rightarrow> int option \<Rightarrow> nat \<Rightarrow> world \<Rightarrow> world" where
  "call_registered meth params timeout_arg callback w =
     (let t = (case timeout_arg of
                 None \<Rightarrow> rpcTimeout w
               | Some x \<Rightarrow> if x = 0 then rpcTimeout w else x);
          p = \<lparr>method_inv = meth, parameters = params\<rparr>;
          (r, w1) = new_Call p t w;
          w2 = w1\<lparr>calls := AList.update (id_call (heap w1 ! r)) r (calls w1)\<rparr>
      in modify r (\<lambda>c. c\<lparr>listeners := listeners c @ [callback]\<rparr>) w2)"

subsection \<open>What happens to a Connection\<close>

text \<open>
  The events of the process: a caller issues a call, the socket reports \<^verbatim>\<open>'close'\<close> or
  \<^verbatim>\<open>'error'\<close>, the stream delivers the prefix or the payload that the reader waits for,
  or the deadline timer of the Call at an address fires. An event that cannot happen in a
  world (a timer that is not active, a read that nobody waits for) has no successor; a
  callback that throws ends the run.
\<close>

datatype event =
    Call_issued string "jsval list" "int option" nat
  | Socket_close
  | Socket_error error
  | Prefix_read "error option" "prefix option"
  | Payload_read "byte list"
  | Timer_fired nat

fun step :: "externals \<Rightarrow> event \<Rightarrow> world \<Rightarrow> (thrown + world) option" where
  "step ext (Call_issued m ps t cb) w = Some (Inr (call ext m ps t cb w))"
| "step ext Socket_close w = Some (Inr (handleClose w))"
| "step ext (Socket_error e) w = Some (Inr (handleError e w))"
| "step ext (Prefix_read err data) w =
     (if reader w = AwaitPrefix then Some (on_prefix ext err data w) else None)"
| "step ext (Payload_read buf) w =
     (case reader w of
        AwaitPayload n c e \<Rightarrow> Some (on_payload ext buf w)
      | Idle \<Rightarrow> None
      | AwaitPrefix \<Rightarrow> None)"
| "step ext (Timer_fired r) w = map_option Inr (timer_fires r w)"

fun run :: "externals \<Rightarrow> event list \<Rightarrow> world \<Rightarrow> (thrown + world) option" where
  "run ext [] w = Some (Inr w)"
| "run ext (e # es) w =
     (case step ext e w of
        None \<Rightarrow> None
      | Some (Inl t) \<Rightarrow> (if es = [] then Some (Inl t) else None)
      | Some (Inr w') \<Rightarrow> run ext es w')"

text \<open>The Call at address \<open>r\<close> exists and has no timer.\<close>

definition no_timer :: "nat \<Rightarrow> world \<Rightarrow> bool" where
  "no_timer r w \<longleftrightarrow> r < length (heap w) \<and> timer (heap w ! r) = None"

text \<open>What holds in every world that a run reaches from a fresh process: each Call is
  done or still pending, and the table is well formed.\<close>

definition call_ok :: "call \<Rightarrow> bool" where
  "call_ok c \<longleftrightarrow> done_call c \<or> pending c"

definition reachable_inv :: "world \<Rightarrow> bool" where
  "reachable_inv w \<longleftrightarrow> wf_world w \<and> (\<forall>c \<in> set (heap w). call_ok c)"

subsection \<open>Callbacks that use the Connection\<close>

text \<open>
  \<^verbatim>\<open>this.emit('done', this.error, this.value)\<close> runs the callbacks registered by
  \<^verbatim>\<open>call.on('done', callback)\<close> at once, inside \<^verbatim>\<open>callComplete\<close>, and such a callback
  may invoke \<^verbatim>\<open>call\<close> on the Connection: also while \<^verbatim>\<open>_cleanupCalls\<close> is in its loop.
  What a callback does to the Connection when it is notified is its reaction: nothing, or
  one more \<^verbatim>\<open>call\<close> with a method, parameters, a timeout argument and a callback. A
  program gives the reaction of every callback to the arguments of \<^verbatim>\<open>'done'\<close>.
\<close>

datatype reaction = Quiet | Issue string "jsval list" "int option" nat

type_synonym program = "nat \<Rightarrow> error option \<Rightarrow> jsval option \<Rightarrow> reaction"

text \<open>The callbacks that the \<^verbatim>\<open>'done'\<close> emissions of a list of effects notify, with the
  arguments they receive, in the order in which \<^verbatim>\<open>emit\<close> runs them.\<close>

fun notified :: "effect list \<Rightarrow> (nat \<times> error option \<times> jsval option) list" where
  "notified [] = []"
| "notified (ClearTimeout # es) = notified es"
| "notified (EmitDone ls e v # es) = map (\<lambda>cb. (cb, e, v)) ls @ notified es"

text \<open>The notified callbacks run one after the other; \<open>react\<close> carries out a reaction on
  the Connection, and is \<open>None\<close> when it does not return.\<close>

fun run_listeners ::
  "(reaction \<Rightarrow> world \<Rightarrow> world option) \<Rightarrow> program \<Rightarrow> (nat \<times> error option \<times> jsval option) list
     \<Rightarrow> world \<Rightarrow> world option" where
  "run_listeners react prog [] w = Some w"
| "run_listeners react prog ((cb, e, v) # rest) w =
     (case react (prog cb e v) w of
        None \<Rightarrow> None
      | Some w' \<Rightarrow> run_listeners react prog rest w')"

text \<open>A method call on the Call at address \<open>r\<close>, with the callbacks of the emissions that
  it adds run before it returns.\<close>

definition modify_notify ::
  "(reaction \<Rightarrow> world \<Rightarrow> world option) \<Rightarrow> program \<Rightarrow> nat \<Rightarrow> (call \<Rightarrow> call) \<Rightarrow> world \<Rightarrow> world option" where
  "modify_notify react prog r f w =
     (let old_effects = effects (heap w ! r);
          w1 = modify r f w
      in run_listeners react prog (notified (drop (length old_effects) (effects (heap w1 ! r)))) w1)"

text \<open>\<^verbatim>\<open>_cleanupCalls\<close>, \<^verbatim>\<open>_handleClose\<close>, \<^verbatim>\<open>_handleError\<close> and \<^verbatim>\<open>call\<close> with the
  callbacks run where the code runs them: inside \<^verbatim>\<open>call.setException(err)\<close>, in the loop
  over the old table, after \<^verbatim>\<open>this.calls = {}\<close>.\<close>

fun cleanup_loop_r ::
  "(reaction \<Rightarrow> world \<Rightarrow> world option) \<Rightarrow> program \<Rightarrow> error \<Rightarrow> (int \<times> nat) list \<Rightarrow> world \<Rightarrow> world option" where
  "cleanup_loop_r react prog err [] w = Some w"
| "cleanup_loop_r react prog err ((k, r) # t) w =
     (case modify_notify react prog r (setException err) w of
        None \<Rightarrow> None
      | Some w' \<Rightarrow> cleanup_loop_r react prog err t w')"

definition cleanupCalls_r ::
  "(reaction \<Rightarrow> world \<Rightarrow> world option) \<Rightarrow> program \<Rightarrow> error \<Rightarrow> world \<Rightarrow> world option" where
  "cleanupCalls_r react prog err w =
     (let t = calls w; w1 = w\<lparr>calls := []\<rparr> in cleanup_loop_r react prog err t w1)"

definition handleClose_r ::
  "(reaction \<Rightarrow> world \<Rightarrow> world option) \<Rightarrow> program \<Rightarrow> world \<Rightarrow> world option" where
  "handleClose_r react prog w =
     (let w1 = w\<lparr>closed := True\<rparr>;
          err = closed_error w1
      in case cleanupCalls_r react prog err w1 of
           None \<Rightarrow> None
         | Some w2 \<Rightarrow> Some (w2\<lparr>emitted := emitted w2 @ [''close'']\<rparr>))"


definition call_r ::
  "(reaction \<Rightarrow> world \<Rightarrow> world option) \<Rightarrow> program \<Rightarrow> externals \<Rightarrow> string \<Rightarrow> jsval list
     \<Rightarrow> int option \<Rightarrow> nat \<Rightarrow> world \<Rightarrow> world option" where
  "call_r react prog ext meth params timeout_arg callback w =
     (let t = (case timeout_arg of
                 None \<Rightarrow> rpcTimeout w
               | Some x \<Rightarrow> if x = 0 then rpcTimeout w else x);
          p = \<lparr>method_inv = meth, parameters = params\<rparr>;
          (r, w1) = new_Call p t w;
          w2 = w1\<lparr>calls := AList.update (id_call (heap w1 ! r)) r (calls w1)\<rparr>;
          w3 = modify r (\<lambda>c. c\<lparr>listeners := listeners c @ [callback]\<rparr>) w2
      in if closed w3 then handleClose_r react prog w3 else Some (sendParam ext r w3))"

text \<open>A reaction is carried out by \<^verbatim>\<open>call\<close>, which on a closed Connection drains the
  table again and so notifies callbacks again. The depth of callbacks running inside
  callbacks is bounded by \<open>n\<close>; \<open>None\<close> is a nesting deeper than that.\<close>

primrec react_r :: "nat \<Rightarrow> program \<Rightarrow> externals \<Rightarrow> reaction \<Rightarrow> world \<Rightarrow> world option" where
  "react_r 0 prog ext re w = (case re of Quiet \<Rightarrow> Some w | Issue m ps t cb \<Rightarrow> None)"
| "react_r (Suc n) prog ext re w =
     (case re of
        Quiet \<Rightarrow> Some w
      | Issue m ps t cb \<Rightarrow> call_r (react_r n prog ext) prog ext m ps t cb w)"

text \<open>The callbacks that \<^verbatim>\<open>setException\<close> on a Call notifies, with their arguments.\<close>

definition completions :: "error \<Rightarrow> call \<Rightarrow> (nat \<times> error option \<times> jsval option) list" where
  "completions err c =
     (if done_call c then [] else map (\<lambda>cb. (cb, Some err, value_call c)) (listeners c))"






subsection \<open>Sample data\<close>

definition sample_call :: call where
  "sample_call =
     \<lparr>id_call = 0, param = \<lparr>method_inv = ''echo'', parameters = []\<rparr>, value_call = None,
      error_call = None, done_call = False, startTime = 0, timeout = 5000,
      timer = Some Active, listeners = [7], effects = []\<rparr>"

text \<open>A connection to a region server, a small instance of the external helpers (flag
  bit 0 is the error bit, bit 1 the has-length bit; strings carry a one-byte length), and
  the worlds after one and after two calls.\<close>

definition sample_world :: world where
  "sample_world =
     \<lparr>Call_Counter = 0, clock = 0, heap = [], calls = [], closed = False, rpcTimeout = 10000,
      address = \<lparr>host = ''10.0.0.1'', port = 60020\<rparr>, out = [], socket_ended = False,
      emitted = [], reader = AwaitPrefix\<rparr>"

definition sample_readInt :: "byte list \<Rightarrow> (int \<times> byte list) option" where
  "sample_readInt bs =
     (case bs of a # b # c # d # rest \<Rightarrow> Some (int32_of_bytes [a, b, c, d], rest) | _ \<Rightarrow> None)"

definition sample_readString :: "byte list \<Rightarrow> (string \<times> byte list) option" where
  "sample_readString bs =
     (case bs of
        [] \<Rightarrow> None
      | n # rest \<Rightarrow>
          if unat n \<le> length rest
          then Some (map (\<lambda>b. char_of (unat b)) (take (unat n) rest), drop (unat n) rest)
          else None)"

definition sample_readFields :: "byte list \<Rightarrow> (jsval option \<times> byte list) option" where
  "sample_readFields bs =
     (case sample_readString bs of None \<Rightarrow> None | Some (s, rest) \<Rightarrow> Some (Some (JString s), rest))"

definition sample_write_param :: "invocation \<Rightarrow> byte list" where
  "sample_write_param p =
     of_nat (length (method_inv p)) # map (\<lambda>c. of_nat (of_char c)) (method_inv p)
       @ int32_bytes (int (length (parameters p)))"

definition sample_ext :: externals where
  "sample_ext =
     \<lparr>isError = (\<lambda>f. f mod 2 = 1), isLength = (\<lambda>f. (f div 2) mod 2 = 1),
      readInt = sample_readInt, readString = sample_readString,
      readFields = sample_readFields, write_param = sample_write_param\<rparr>"

definition one_call :: world where
  "one_call = call sample_ext ''echo'' [] (Some 5000) 0 sample_world"

definition two_calls :: world where
  "two_calls = call sample_ext ''get'' [] None 1 one_call"

text \<open>The response to the first call: success flag with the has-length bit, state word,
  the string \<^verbatim>\<open>pong\<close>; and the world after it has been handled.\<close>

definition pong_frame :: prefix where
  "pong_frame = \<lparr>id_field = 0, flag_field = 2, size_field = 18\<rparr>"

definition pong_payload :: "byte list" where
  "pong_payload = [0, 0, 0, 0, 4, 0x70, 0x6f, 0x6e, 0x67]"

definition answered :: world where
  "answered = (case receive_frame sample_ext pong_frame pong_payload one_call of
                 Inl t \<Rightarrow> one_call
               | Inr w \<Rightarrow> w)"


definition insistent_program :: program where
  "insistent_program cb e v = (if e = None then Quiet else Issue ''echo'' [] (Some 5000) cb)"

section \<open>Properties of Call\<close>

lemma callComplete_done:
  "done_call c \<Longrightarrow>
   callComplete c = clear_timer c"
  by (simp add: callComplete_def clear_timer_def Let_def split: option.splits)

lemma clear_timer_fields:
  "done_call (clear_timer c) = done_call c"
  "error_call (clear_timer c) = error_call c"
  "value_call (clear_timer c) = value_call c"
  "listeners (clear_timer c) = listeners c"
  "emissions (clear_timer c) = emissions c"
  "timer (clear_timer c) \<noteq> Some Active"
  "timer (clear_timer c) = (case timer c of None \<Rightarrow> None | Some t \<Rightarrow> Some Inactive)"
  by (simp_all add: clear_timer_def emissions_def split: option.splits)

text \<open>
  C10. Once a Call is done, \<open>setException\<close> and \<open>setValue\<close> emit nothing more and leave
  \<open>done\<close> set, yet they still overwrite the stored error (respectively value) and clear
  the timer: the only effect they add is \<open>ClearTimeout\<close>, and only when a timer exists.
\<close>

theorem C10_done_call_still_overwritten:
  assumes "done_call c"
  shows "emissions (setException e c) = emissions c
       \<and> done_call (setException e c)
       \<and> error_call (setException e c) = Some e
       \<and> value_call (setException e c) = value_call c
       \<and> timer (setException e c) \<noteq> Some Active
       \<and> emissions (setValue v c) = emissions c
       \<and> done_call (setValue v c)
       \<and> value_call (setValue v c) = v
       \<and> error_call (setValue v c) = error_call c
       \<and> timer (setValue v c) \<noteq> Some Active
       \<and> effects (setException e c)
           = effects c @ (case timer c of None \<Rightarrow> [] | Some t \<Rightarrow> [ClearTimeout])
       \<and> effects (setValue v c)
           = effects c @ (case timer c of None \<Rightarrow> [] | Some t \<Rightarrow> [ClearTimeout])"
  using assms
  by (simp add: setException_def setValue_def callComplete_def clear_timer_def
      emissions_def Let_def split: option.splits)


theorem C10_witness:
  "done_call (setValue (Some (JString ''pong'')) sample_call)
   \<and> emissions (setException (Error ''late'') (setValue (Some (JString ''pong'')) sample_call))
       = [EmitDone [7] None (Some (JString ''pong''))]
   \<and> error_call (setException (Error ''late'') (setValue (Some (JString ''pong'')) sample_call))
       = Some (Error ''late'')
   \<and> value_call (setValue None (setValue (Some (JString ''pong'')) sample_call)) = None"
proof -
  have d: "done_call (setValue (Some (JString ''pong'')) sample_call)"
    by (simp add: setValue_def callComplete_def clear_timer_def emit_done_def sample_call_def)
  have e: "emissions (setValue (Some (JString ''pong'')) sample_call)
             = [EmitDone [7] None (Some (JString ''pong''))]"
    by (simp add: setValue_def callComplete_def clear_timer_def emit_done_def sample_call_def
        emissions_def)
  from C10_done_call_still_overwritten [OF d, of "Error ''late''" None] d e
  show ?thesis by simp
qed

lemma apply_op_done:
  assumes "done_call c"
  shows "done_call (apply_op c x)"
    and "timer (apply_op c x) = (case timer c of None \<Rightarrow> None | Some t \<Rightarrow> Some Inactive)"
    and "effects (apply_op c x)
           = effects c @ (case timer c of None \<Rightarrow> [] | Some t \<Rightarrow> [ClearTimeout])"
  using assms
  by (cases x;
      simp add: handleTimeoutit_def setException_def setValue_def callComplete_def
        clear_timer_def Let_def split: option.splits)+

lemma run_ops_done:
  "done_call c \<Longrightarrow>
   done_call (run_ops c ops)
   \<and> timer (run_ops c ops) = (if ops = [] then timer c
        else case timer c of None \<Rightarrow> None | Some t \<Rightarrow> Some Inactive)
   \<and> effects (run_ops c ops)
       = effects c @ replicate (case timer c of None \<Rightarrow> 0 | Some t \<Rightarrow> length ops) ClearTimeout"
proof (induction ops arbitrary: c)
  case Nil
  then show ?case by (simp split: option.splits)
next
  case (Cons x xs)
  note d = apply_op_done [OF Cons.prems, of x]
  from Cons.IH [OF d(1)] show ?case
    by (cases "timer c") (simp_all add: d(2,3) replicate_app_Cons_same)
qed

lemma apply_op_first:
  assumes "\<not> done_call c"
  shows "done_call (apply_op c x)"
    and "timer (apply_op c x) = (case timer c of None \<Rightarrow> None | Some t \<Rightarrow> Some Inactive)"
    and "effects (apply_op c x)
           = effects c @ (case timer c of None \<Rightarrow> [] | Some t \<Rightarrow> [ClearTimeout])
               @ [EmitDone (listeners c) (error_call (apply_op c x)) (value_call (apply_op c x))]"
  using assms
  by (cases x;
      simp add: handleTimeoutit_def setException_def setValue_def callComplete_def
        clear_timer_def emit_done_def Let_def split: option.splits)+

lemma filter_is_emit_replicate: "filter is_emit (replicate n ClearTimeout) = []"
  by (induction n) simp_all

text \<open>
  C1. Take a Call that is not done and apply to it any non-empty sequence \<open>x # xs\<close> of
  \<open>setValue\<close>, \<open>setException\<close> and timeout-handler invocations, in any order. Exactly one
  \<^verbatim>\<open>'done'\<close> emission is added; it goes to the registered listeners with the error and the
  value stored by the first operation \<open>x\<close>; if the Call has a timer, \<open>clearTimeout\<close>
  comes before that emission; everything after it is \<open>clearTimeout\<close> only, and the timer
  is not active at the end.
\<close>

theorem C1_exactly_one_completion:
  assumes "\<not> done_call c"
  shows "length (emissions (run_ops c (x # xs))) = length (emissions c) + 1
       \<and> effects (run_ops c (x # xs))
           = effects c @ (case timer c of None \<Rightarrow> [] | Some t \<Rightarrow> [ClearTimeout])
               @ [EmitDone (listeners c) (error_call (apply_op c x)) (value_call (apply_op c x))]
               @ replicate (case timer c of None \<Rightarrow> 0 | Some t \<Rightarrow> length xs) ClearTimeout
       \<and> done_call (run_ops c (x # xs))
       \<and> timer (run_ops c (x # xs)) \<noteq> Some Active"
proof -
  let ?c1 = "apply_op c x"
  note f = apply_op_first [OF assms, of x]
  note r = run_ops_done [OF f(1), of xs]
  have eff: "effects (run_ops c (x # xs))
           = effects c @ (case timer c of None \<Rightarrow> [] | Some t \<Rightarrow> [ClearTimeout])
               @ [EmitDone (listeners c) (error_call ?c1) (value_call ?c1)]
               @ replicate (case timer c of None \<Rightarrow> 0 | Some t \<Rightarrow> length xs) ClearTimeout"
    using r f(2,3) by (cases "timer c") simp_all
  have em: "length (emissions (run_ops c (x # xs))) = length (emissions c) + 1"
    unfolding emissions_def eff by (cases "timer c") (simp_all add: filter_is_emit_replicate)
  have tm: "timer (run_ops c (x # xs)) \<noteq> Some Active"
    using r f(2) by (cases "timer c") (simp_all split: if_splits)
  from eff em tm r show ?thesis by simp
qed

theorem C1_witness:
  "\<not> done_call sample_call
   \<and> effects (run_ops sample_call
        [SetValue (Some (JString ''pong'')), HandleTimeout, SetException (Error ''ECONNRESET'')])
       = [ClearTimeout, EmitDone [7] None (Some (JString ''pong'')), ClearTimeout, ClearTimeout]
   \<and> length (emissions (run_ops sample_call
        [SetValue (Some (JString ''pong'')), HandleTimeout, SetException (Error ''ECONNRESET'')])) = 1"
proof -
  have nd: "\<not> done_call sample_call" by (simp add: sample_call_def)
  have s: "timer sample_call = Some Active" "effects sample_call = []"
    "listeners sample_call = [7]" "emissions sample_call = []"
    by (simp_all add: sample_call_def emissions_def)
  have a: "error_call (setValue (Some (JString ''pong'')) sample_call) = None"
    "value_call (setValue (Some (JString ''pong'')) sample_call) = Some (JString ''pong'')"
    by (simp_all add: setValue_def callComplete_def clear_timer_def emit_done_def sample_call_def)
  from C1_exactly_one_completion [OF nd, of "SetValue (Some (JString ''pong''))"
      "[HandleTimeout, SetException (Error ''ECONNRESET'')]"]
  show ?thesis using nd by (simp add: s a numeral_2_eq_2)
qed

section \<open>Properties of the Connection\<close>

lemma modify_frame:
  "calls (modify r f w) = calls w"
  "closed (modify r f w) = closed w"
  "emitted (modify r f w) = emitted w"
  "out (modify r f w) = out w"
  "socket_ended (modify r f w) = socket_ended w"
  "reader (modify r f w) = reader w"
  "address (modify r f w) = address w"
  "rpcTimeout (modify r f w) = rpcTimeout w"
  "Call_Counter (modify r f w) = Call_Counter w"
  "length (heap (modify r f w)) = length (heap w)"
  by (simp_all add: modify_def)

lemma modify_heap:
  "heap (modify r f w) ! i = (if i = r \<and> r < length (heap w) then f (heap w ! r) else heap w ! i)"
  by (cases "r < length (heap w)") (simp_all add: modify_def nth_list_update list_update_beyond)

lemma cleanup_loop_frame:
  "calls (cleanup_loop err t w) = calls w
   \<and> closed (cleanup_loop err t w) = closed w
   \<and> emitted (cleanup_loop err t w) = emitted w
   \<and> out (cleanup_loop err t w) = out w
   \<and> socket_ended (cleanup_loop err t w) = socket_ended w
   \<and> reader (cleanup_loop err t w) = reader w
   \<and> address (cleanup_loop err t w) = address w
   \<and> length (heap (cleanup_loop err t w)) = length (heap w)"
  by (induction err t w rule: cleanup_loop.induct) (simp_all add: modify_frame)

lemma cleanup_loop_append:
  "cleanup_loop err (t1 @ t2) w = cleanup_loop err t2 (cleanup_loop err t1 w)"
  by (induction err t1 w rule: cleanup_loop.induct) simp_all

lemma cleanup_loop_heap:
  "distinct (map snd t) \<Longrightarrow> \<forall>r \<in> snd ` set t. r < length (heap w) \<Longrightarrow>
   heap (cleanup_loop err t w) ! i
     = (if i \<in> snd ` set t then setException err (heap w ! i) else heap w ! i)"
proof (induction err t w rule: cleanup_loop.induct)
  case (1 err w)
  then show ?case by simp
next
  case (2 err k r t w)
  have d: "distinct (map snd t)" and nr: "r \<notin> snd ` set t" and lr: "r < length (heap w)"
    using "2.prems" by auto
  have b: "\<forall>r' \<in> snd ` set t. r' < length (heap (modify r (setException err) w))"
    using "2.prems"(2) by (simp add: modify_frame)
  show ?case
    using "2.IH" [OF d b] nr lr by (auto simp: modify_heap)
qed

lemma cleanup_loop_nil_heap:
  "calls w = [] \<Longrightarrow> heap (cleanupCalls err w) = heap w"
  by (simp add: cleanupCalls_def)

lemma setException_pending:
  "\<not> done_call c \<Longrightarrow>
   done_call (setException err c)
   \<and> error_call (setException err c) = Some err
   \<and> value_call (setException err c) = value_call c
   \<and> timer (setException err c) \<noteq> Some Active
   \<and> listeners (setException err c) = listeners c
   \<and> id_call (setException err c) = id_call c
   \<and> effects (setException err c)
       = effects c @ (case timer c of None \<Rightarrow> [] | Some t \<Rightarrow> [ClearTimeout])
           @ [EmitDone (listeners c) (Some err) (value_call c)]
   \<and> emissions (setException err c)
       = emissions c @ [EmitDone (listeners c) (Some err) (value_call c)]"
  by (simp add: setException_def callComplete_def clear_timer_def emit_done_def emissions_def
      Let_def split: option.splits)

lemma cleanupCalls_props:
  assumes "wf_world w"
  shows "calls (cleanupCalls err w) = []"
    and "closed (cleanupCalls err w) = closed w"
    and "emitted (cleanupCalls err w) = emitted w"
    and "out (cleanupCalls err w) = out w"
    and "length (heap (cleanupCalls err w)) = length (heap w)"
    and "heap (cleanupCalls err w) ! i
          = (if i \<in> snd ` set (calls w) then setException err (heap w ! i) else heap w ! i)"
proof -
  show "calls (cleanupCalls err w) = []" "closed (cleanupCalls err w) = closed w"
    "emitted (cleanupCalls err w) = emitted w" "out (cleanupCalls err w) = out w"
    "length (heap (cleanupCalls err w)) = length (heap w)"
    by (simp_all add: cleanupCalls_def Let_def cleanup_loop_frame)
  have "distinct (map snd (calls w))" "\<forall>r \<in> snd ` set (calls w). r < length (heap (w\<lparr>calls := []\<rparr>))"
    using assms by (simp_all add: wf_world_def)
  from cleanup_loop_heap [OF this, of err i]
  show "heap (cleanupCalls err w) ! i
          = (if i \<in> snd ` set (calls w) then setException err (heap w ! i) else heap w ! i)"
    by (simp add: cleanupCalls_def Let_def)
qed

lemma one_call_eq: "one_call = \<lparr>Call_Counter = 1, clock = 0,
    heap =
      [\<lparr>id_call = 0, param = \<lparr>method_inv = ''echo'', parameters = []\<rparr>,
          value_call = None, error_call = None, done_call = False,
          startTime = 0, timeout = 5000, timer = Some Active,
          listeners = [0], effects = []\<rparr>],
    calls = [(0, 0)], closed = False, rpcTimeout = 10000,
    address = \<lparr>host = ''10.0.0.1'', port = 60020\<rparr>,
    out = [[0, 0, 0, 13, 0, 0, 0, 0, 4, 101, 99, 104, 111, 0, 0, 0, 0]],
    socket_ended = False, emitted = [], reader = AwaitPrefix\<rparr>"
  by (simp add: one_call_def call_def sample_world_def new_Call_def js_incr_def modify_def
      sendParam_def writeInt_def putInt_def int32_bytes_def sample_ext_def sample_write_param_def Let_def)

lemma two_calls_eq: "two_calls = \<lparr>Call_Counter = 2, clock = 0,
    heap =
      [\<lparr>id_call = 0, param = \<lparr>method_inv = ''echo'', parameters = []\<rparr>,
          value_call = None, error_call = None, done_call = False,
          startTime = 0, timeout = 5000, timer = Some Active,
          listeners = [0], effects = []\<rparr>,
       \<lparr>id_call = 1, param = \<lparr>method_inv = ''get'', parameters = []\<rparr>,
          value_call = None, error_call = None, done_call = False,
          startTime = 0, timeout = 10000, timer = Some Active,
          listeners = [1], effects = []\<rparr>],
    calls = [(0, 0), (1, 1)], closed = False, rpcTimeout = 10000,
    address = \<lparr>host = ''10.0.0.1'', port = 60020\<rparr>,
    out =
      [[0, 0, 0, 13, 0, 0, 0, 0, 4, 101, 99, 104, 111, 0, 0, 0, 0],
       [0, 0, 0, 12, 0, 0, 0, 1, 3, 103, 101, 116, 0, 0, 0, 0]],
    socket_ended = False, emitted = [], reader = AwaitPrefix\<rparr>"
  by (simp add: two_calls_def one_call_eq call_def new_Call_def js_incr_def modify_def
      sendParam_def writeInt_def putInt_def int32_bytes_def sample_ext_def sample_write_param_def Let_def)

lemma handleClose_unfold:
  "handleClose w = (cleanupCalls (closed_error w) (w\<lparr>closed := True\<rparr>))\<lparr>emitted := emitted w @ [''close'']\<rparr>"
  by (simp add: handleClose_def Let_def closed_error_def cleanupCalls_def cleanup_loop_frame)

lemma wf_closed: "wf_world (w\<lparr>closed := b\<rparr>) = wf_world w"
  by (simp add: wf_world_def)

lemma handleClose_props:
  assumes "wf_world w"
  shows "calls (handleClose w) = []"
    and "closed (handleClose w)"
    and "emitted (handleClose w) = emitted w @ [''close'']"
    and "out (handleClose w) = out w"
    and "length (heap (handleClose w)) = length (heap w)"
    and "heap (handleClose w) ! i
          = (if i \<in> snd ` set (calls w) then setException (closed_error w) (heap w ! i)
             else heap w ! i)"
proof -
  have w1: "wf_world (w\<lparr>closed := True\<rparr>)" using assms by (simp add: wf_closed)
  note p = cleanupCalls_props [OF w1, of "closed_error w"]
  show "calls (handleClose w) = []" "closed (handleClose w)"
    "emitted (handleClose w) = emitted w @ [''close'']" "out (handleClose w) = out w"
    "length (heap (handleClose w)) = length (heap w)"
    using p(1-5) by (simp_all add: handleClose_unfold)
  show "heap (handleClose w) ! i
          = (if i \<in> snd ` set (calls w) then setException (closed_error w) (heap w ! i)
             else heap w ! i)"
    using p(6) [of i] by (simp add: handleClose_unfold)
qed

lemma wf_nil: "calls w = [] \<Longrightarrow> wf_world w"
  by (simp add: wf_world_def)







lemma update_snd_set: "snd ` set (AList.update k r t) \<subseteq> insert r (snd ` set t)"
  by (induction t) auto

lemma update_snd_mem: "r \<in> snd ` set (AList.update k r t)"
  by (induction t) auto

lemma update_snd_distinct:
  "distinct (map snd t) \<Longrightarrow> r \<notin> snd ` set t \<Longrightarrow> distinct (map snd (AList.update k r t))"
proof (induction t)
  case Nil
  then show ?case by simp
next
  case (Cons a t)
  obtain k' r' where a: "a = (k', r')" by (cases a)
  have sub: "snd ` set (AList.update k r t) \<subseteq> insert r (snd ` set t)" by (rule update_snd_set)
  show ?case
  proof (cases "k' = k")
    case True
    then show ?thesis using Cons.prems a by auto
  next
    case False
    have "r' \<notin> snd ` set (AList.update k r t)"
      using sub Cons.prems a by auto
    then show ?thesis using False Cons a by auto
  qed
qed

lemma call_unfold:
  "call ext m ps t cb w =
     (if closed w then handleClose (call_registered m ps t cb w)
      else sendParam ext (length (heap w)) (call_registered m ps t cb w))"
  by (simp add: call_def call_registered_def new_Call_def modify_def Let_def)

lemma call_registered_fields:
  "heap (call_registered m ps t cb w) = heap w @
     [\<lparr>id_call = Call_Counter w, param = \<lparr>method_inv = m, parameters = ps\<rparr>,
       value_call = None, error_call = None, done_call = False, startTime = clock w,
       timeout = (case t of None \<Rightarrow> rpcTimeout w | Some x \<Rightarrow> if x = 0 then rpcTimeout w else x),
       timer = (if 0 < (case t of None \<Rightarrow> rpcTimeout w | Some x \<Rightarrow> if x = 0 then rpcTimeout w else x)
                then Some Active else None),
       listeners = [cb], effects = []\<rparr>]"
  "calls (call_registered m ps t cb w) = AList.update (Call_Counter w) (length (heap w)) (calls w)"
  "closed (call_registered m ps t cb w) = closed w"
  "out (call_registered m ps t cb w) = out w"
  "emitted (call_registered m ps t cb w) = emitted w"
  "address (call_registered m ps t cb w) = address w"
  "Call_Counter (call_registered m ps t cb w) = js_incr (Call_Counter w)"
  by (simp_all add: call_registered_def new_Call_def modify_def Let_def)

lemma wf_call_registered:
  assumes "wf_world w"
  shows "wf_world (call_registered m ps t cb w)"
proof -
  have fresh: "length (heap w) \<notin> snd ` set (calls w)"
    using assms by (auto simp: wf_world_def)
  have d: "distinct (map snd (calls (call_registered m ps t cb w)))"
    using assms update_snd_distinct [OF _ fresh, of "Call_Counter w"]
    by (simp add: call_registered_fields wf_world_def)
  have "r < length (heap (call_registered m ps t cb w))"
    if "r \<in> set (map snd (calls (call_registered m ps t cb w)))" for r
  proof -
    from that have "r \<in> insert (length (heap w)) (snd ` set (calls w))"
      using update_snd_set [of "Call_Counter w" "length (heap w)" "calls w"]
      by (auto simp: call_registered_fields)
    then show ?thesis using assms by (auto simp: wf_world_def call_registered_fields)
  qed
  with d show ?thesis by (simp add: wf_world_def)
qed

text \<open>
  C6. On a Connection whose closed flag is set, \<open>call\<close> writes nothing to the socket;
  the Call it has just constructed is done when \<open>call\<close> returns, holds the
  connection-closed error and no value, and has emitted \<^verbatim>\<open>'done'\<close> exactly once, to the
  callback, with that error.
\<close>

theorem C6_call_on_closed_connection:
  assumes "closed w" and "wf_world w"
  shows "out (call ext m ps t cb w) = out w
       \<and> length (heap (call ext m ps t cb w)) = length (heap w) + 1
       \<and> done_call (heap (call ext m ps t cb w) ! length (heap w))
       \<and> error_call (heap (call ext m ps t cb w) ! length (heap w)) = Some (closed_error w)
       \<and> value_call (heap (call ext m ps t cb w) ! length (heap w)) = None
       \<and> emissions (heap (call ext m ps t cb w) ! length (heap w))
           = [EmitDone [cb] (Some (closed_error w)) None]
       \<and> timer (heap (call ext m ps t cb w) ! length (heap w)) \<noteq> Some Active
       \<and> calls (call ext m ps t cb w) = []
       \<and> closed (call ext m ps t cb w)"
proof -
  let ?w3 = "call_registered m ps t cb w"
  let ?c = "heap ?w3 ! length (heap w)"
  have eq: "call ext m ps t cb w = handleClose ?w3"
    using assms(1) by (simp add: call_unfold)
  note hc = handleClose_props [OF wf_call_registered [OF assms(2), of m ps t cb]]
  have inr: "length (heap w) \<in> snd ` set (calls ?w3)"
    by (simp add: call_registered_fields update_snd_mem)
  have ce: "closed_error ?w3 = closed_error w"
    by (simp add: closed_error_def call_registered_fields)
  have new: "heap (handleClose ?w3) ! length (heap w) = setException (closed_error w) ?c"
    using hc(6) [of "length (heap w)"] inr ce by simp
  have nd: "\<not> done_call ?c" by (simp add: call_registered_fields)
  note se = setException_pending [OF nd, of "closed_error w"]
  have c0: "value_call ?c = None" "listeners ?c = [cb]" "emissions ?c = []"
    by (simp_all add: call_registered_fields emissions_def)
  have len: "length (heap ?w3) = length (heap w) + 1" by (simp add: call_registered_fields)
  have o: "out ?w3 = out w" by (simp add: call_registered_fields)
  show ?thesis
    unfolding eq new
    using hc(1,2,4,5) se c0 len o by simp
qed

theorem C6_witness:
  "closed (handleClose one_call) \<and> wf_world (handleClose one_call)
   \<and> out (call sample_ext ''get'' [] (Some 3000) 5 (handleClose one_call)) = out one_call
   \<and> emissions (heap (call sample_ext ''get'' [] (Some 3000) 5 (handleClose one_call)) ! 1)
       = [EmitDone [5] (Some (ConnectionClosedException ''socket 10.0.0.1:60020 closed.'')) None]"
proof -
  have w1: "wf_world one_call" by (simp add: wf_world_def one_call_eq)
  note hc = handleClose_props [OF w1]
  have c: "closed (handleClose one_call)" by (rule hc(2))
  have w: "wf_world (handleClose one_call)" by (rule wf_nil) (rule hc(1))
  have l: "length (heap (handleClose one_call)) = 1" using hc(5) by (simp add: one_call_eq)
  have ce: "closed_error (handleClose one_call)
      = ConnectionClosedException ''socket 10.0.0.1:60020 closed.''"
  proof -
    have "address (handleClose one_call) = address one_call"
      by (simp add: handleClose_unfold cleanupCalls_def Let_def cleanup_loop_frame)
    then have "closed_error (handleClose one_call) = closed_error one_call"
      by (simp add: closed_error_def)
    also have "closed_error one_call = ConnectionClosedException ''socket 10.0.0.1:60020 closed.''"
      by (simp add: closed_error_def one_call_eq number_to_string_def decimal_digits.simps digit_char_def)
    finally show ?thesis .
  qed
  from C6_call_on_closed_connection [OF c w, of sample_ext "''get''" "[]" "Some 3000" 5]
  show ?thesis using c w l ce hc(4) by simp
qed

section \<open>The response reader\<close>


text \<open>
  C5. Take a response frame whose flag has the error bit and the has-length bit, whose
  call id is in the table and refers to a Call that is still pending, and whose payload
  yields the state word and then two strings \<open>cls\<close> and \<open>msg\<close>. Handling the frame does
  not throw; afterwards the Call is done with the error \<open>RemoteException cls msg\<close> and
  still without a value, it has emitted \<^verbatim>\<open>'done'\<close> exactly once, with that error and no
  value, the Connection is neither closed nor has its socket been ended, and the reader waits
  for the next prefix.
\<close>

theorem C5_error_flag_gives_remote_error:
  assumes "map_of (calls w) (id_field d) = Some r"
    and "r < length (heap w)"
    and "pending (heap w ! r)"
    and "isError ext (flag_field d)"
    and "isLength ext (flag_field d)"
    and "readInt ext buf = Some (st, io1)"
    and "readString ext io1 = Some (cls, io2)"
    and "readString ext io2 = Some (msg, io3)"
  shows "case receive_frame ext d buf w of
           Inl t \<Rightarrow> False
         | Inr w' \<Rightarrow>
             done_call (heap w' ! r)
           \<and> error_call (heap w' ! r) = Some (RemoteException cls msg)
           \<and> value_call (heap w' ! r) = None
           \<and> emissions (heap w' ! r)
               = emissions (heap w ! r)
                   @ [EmitDone (listeners (heap w ! r)) (Some (RemoteException cls msg)) None]
           \<and> closed w' = closed w
           \<and> socket_ended w' = socket_ended w
           \<and> emitted w' = emitted w
           \<and> reader w' = AwaitPrefix
           \<and> calls w' = AList.delete (id_field d) (calls w)"
proof -
  let ?w1 = "w\<lparr>calls := AList.delete (id_field d) (calls w),
                reader := AwaitPayload (size_field d - 9) (Some r) True\<rparr>"
  let ?w2 = "nextResponse (modify r (setException (RemoteException cls msg)) ?w1)"
  have p: "on_prefix ext None (Some d) w = Inr ?w1"
    using assms(1,4,5) by (simp add: on_prefix_def Let_def)
  have q: "on_payload ext buf ?w1 = Inr ?w2"
    using assms(6,7,8) by (simp add: on_payload_def)
  have rf: "receive_frame ext d buf w = Inr ?w2"
    by (simp add: receive_frame_def p q)
  have h: "heap ?w2 ! r = setException (RemoteException cls msg) (heap w ! r)"
    using assms(2) by (simp add: nextResponse_def modify_def)
  have nd: "\<not> done_call (heap w ! r)" and v: "value_call (heap w ! r) = None"
    using assms(3) by (simp_all add: pending_def)
  note se = setException_pending [OF nd, of "RemoteException cls msg"]
  have fr: "closed ?w2 = closed w" "socket_ended ?w2 = socket_ended w" "emitted ?w2 = emitted w"
    "reader ?w2 = AwaitPrefix" "calls ?w2 = AList.delete (id_field d) (calls w)"
    by (simp_all add: nextResponse_def modify_def)
  show ?thesis
    unfolding rf using se v fr by (simp add: h)
qed

theorem C5_witness:
  "map_of (calls two_calls) 0 = Some 0 \<and> pending (heap two_calls ! 0)
   \<and> isError sample_ext 3 \<and> isLength sample_ext 3
   \<and> (case receive_frame sample_ext \<lparr>id_field = 0, flag_field = 3, size_field = 18\<rparr>
              [0, 0, 0, 0, 2, 0x70, 0x6f, 1, 0x67] two_calls of
         Inl t \<Rightarrow> False
       | Inr w' \<Rightarrow>
           map emissions (heap w')
             = [[EmitDone [0] (Some (RemoteException ''po'' ''g'')) None], []]
         \<and> \<not> closed w' \<and> \<not> socket_ended w' \<and> calls w' = [(1, 1)])"
proof -
  have a: "map_of (calls two_calls) (id_field \<lparr>id_field = 0, flag_field = 3, size_field = 18\<rparr>) = Some 0"
    "0 < length (heap two_calls)" "pending (heap two_calls ! 0)"
    "isError sample_ext (flag_field \<lparr>id_field = 0, flag_field = 3, size_field = 18\<rparr>)"
    "isLength sample_ext (flag_field \<lparr>id_field = 0, flag_field = 3, size_field = 18\<rparr>)"
    by (simp_all add: two_calls_eq pending_def sample_ext_def)
  have b: "readInt sample_ext [0, 0, 0, 0, 2, 0x70, 0x6f, 1, 0x67] = Some (0, [2, 0x70, 0x6f, 1, 0x67])"
    "readString sample_ext [2, 0x70, 0x6f, 1, 0x67] = Some (''po'', [1, 0x67])"
    "readString sample_ext [1, 0x67] = Some (''g'', [])"
    by (simp_all add: sample_ext_def sample_readInt_def sample_readString_def int32_of_bytes_def
        char_of_eq_iff)
  note t = C5_error_flag_gives_remote_error [OF a b]
  obtain w' where w': "receive_frame sample_ext \<lparr>id_field = 0, flag_field = 3, size_field = 18\<rparr>
              [0, 0, 0, 0, 2, 0x70, 0x6f, 1, 0x67] two_calls = Inr w'"
    using t by (auto split: sum.splits)
  have other: "heap w' ! 1 = heap two_calls ! 1" "length (heap w') = 2"
    using w' by (simp_all add: receive_frame_def on_prefix_def on_payload_def Let_def
        nextResponse_def modify_def two_calls_eq sample_ext_def sample_readInt_def
        sample_readString_def split: if_splits)
      auto
  have two: "\<And>xs :: call list. length xs = 2 \<Longrightarrow> map emissions xs = [emissions (xs ! 0), emissions (xs ! 1)]"
    by (simp add: length_Suc_conv numeral_2_eq_2) auto
  have base: "emissions (heap two_calls ! 0) = []" "emissions (heap two_calls ! 1) = []"
    "listeners (heap two_calls ! 0) = [0]" "closed two_calls = False"
    "socket_ended two_calls = False" "calls two_calls = [(0, 0), (1, 1)]"
    by (simp_all add: two_calls_eq emissions_def)
  from t show ?thesis
    using a(3) other(1) unfolding w'
    by (simp add: two [OF other(2)] base two_calls_eq sample_ext_def emissions_def)
qed

section \<open>The request frame\<close>

lemma length_int32_bytes: "length (int32_bytes v) = 4"
  by (simp add: int32_bytes_def)

lemma int32_unsigned:
  "foldl (\<lambda>a b. a * 256 + uint b) 0 (int32_bytes v) = v mod 2 ^ 32"
proof -
  define a where "a = v div 256"
  define b where "b = a div 256"
  define c where "c = b div 256"
  define d where "d = c div 256"
  define x0 where "x0 = v mod 256"
  define x1 where "x1 = a mod 256"
  define x2 where "x2 = b mod 256"
  define x3 where "x3 = c mod 256"
  have u: "\<And>x :: int. uint (word_of_int x :: byte) = x mod 256"
    by (simp add: uint_word_of_int take_bit_eq_mod)
  have dv: "v div 2 ^ 8 = a" "v div 2 ^ 16 = b" "v div 2 ^ 24 = c" "v div 2 ^ 32 = d"
    by (simp_all add: a_def b_def c_def d_def zdiv_zmult2_eq)
  have dn: "v div 256 = a" "v div 65536 = b" "v div 16777216 = c"
    using dv(1-3) by simp_all
  have e: "v = 256 * a + x0" "a = 256 * b + x1" "b = 256 * c + x2" "c = 256 * d + x3"
    by (simp_all add: a_def b_def c_def d_def x0_def x1_def x2_def x3_def)
  have "foldl (\<lambda>a b. a * 256 + uint b) 0 (int32_bytes v)
      = ((x3 * 256 + x2) * 256 + x1) * 256 + x0"
    by (simp add: int32_bytes_def u dn x0_def x1_def x2_def x3_def)
  also have "\<dots> = v - 2 ^ 32 * d"
    using e by simp
  also have "\<dots> = v mod 2 ^ 32"
    unfolding dv(4) [symmetric] by (simp add: minus_mult_div_eq_mod)
  finally show ?thesis .
qed

lemma int32_roundtrip:
  assumes "- (2 ^ 31) \<le> v" and "v < 2 ^ 31"
  shows "int32_of_bytes (int32_bytes v) = v"
proof (cases "0 \<le> v")
  case True
  then have "v mod 2 ^ 32 = v" using assms by simp
  then show ?thesis using assms by (simp add: int32_of_bytes_def int32_unsigned Let_def)
next
  case False
  have "(v + 2 ^ 32) mod 2 ^ 32 = v + 2 ^ 32"
    using assms False by (intro mod_pos_pos_trivial) simp_all
  then have m: "v mod 2 ^ 32 = v + 2 ^ 32" by simp
  have nv: "\<not> v + 2 ^ 32 < 2 ^ 31" using assms by simp
  show ?thesis
    unfolding int32_of_bytes_def int32_unsigned Let_def m using nv by simp
qed

text \<open>
  C7. The chunk that \<open>sendParam\<close> writes to the socket consists of four bytes that
  encode its own length minus 4, then the four bytes of the call id, then the bytes that
  the Invocation wrote; nothing else is written. While the length fits a signed 32-bit
  integer, reading the first field back gives the number of bytes that follow it.
\<close>

theorem C7_request_frame_layout:
  "(let frame = last (out (sendParam ext r w));
        inv = write_param ext (param (heap w ! r))
    in out (sendParam ext r w) = out w @ [frame]
     \<and> length frame = 8 + length inv
     \<and> take 4 frame = int32_bytes (int (length frame) - 4)
     \<and> take 4 (drop 4 frame) = int32_bytes (id_call (heap w ! r))
     \<and> drop 8 frame = inv
     \<and> (int (length frame) - 4 < 2 ^ 31 \<longrightarrow>
          int32_of_bytes (take 4 frame) = int (length frame) - 4))"
proof -
  let ?inv = "write_param ext (param (heap w ! r))"
  let ?frame = "int32_bytes (int (length ?inv) + 4) @ int32_bytes (id_call (heap w ! r)) @ ?inv"
  have o: "out (sendParam ext r w) = out w @ [?frame]"
    by (simp add: sendParam_def writeInt_def putInt_def Let_def length_int32_bytes add.commute)
  have len: "length ?frame = 8 + length ?inv"
    by (simp add: length_int32_bytes)
  have l4: "int (length ?frame) - 4 = int (length ?inv) + 4"
    using len by simp
  have rt: "int (length ?inv) + 4 < 2 ^ 31 \<longrightarrow>
      int32_of_bytes (int32_bytes (int (length ?inv) + 4)) = int (length ?inv) + 4"
    by (simp add: int32_roundtrip)
  have f: "last (out w @ [?frame]) = ?frame" by simp
  show ?thesis
    unfolding Let_def o f l4
    using rt by (simp add: length_int32_bytes)
qed

theorem C7_witness:
  "out (sendParam sample_ext 0 (call_registered ''echo'' [] (Some 5000) 0 sample_world))
     = [[0, 0, 0, 13, 0, 0, 0, 0, 4, 101, 99, 104, 111, 0, 0, 0, 0]]
   \<and> int32_of_bytes [0, 0, 0, 13] = 13 \<and> (13 :: int) < 2 ^ 31"
proof -
  have o: "out (sendParam sample_ext 0 (call_registered ''echo'' [] (Some 5000) 0 sample_world))
     = [[0, 0, 0, 13, 0, 0, 0, 0, 4, 101, 99, 104, 111, 0, 0, 0, 0]]"
    by (simp add: sendParam_def writeInt_def putInt_def Let_def call_registered_fields
        sample_world_def sample_ext_def sample_write_param_def int32_bytes_def)
  from C7_request_frame_layout [of sample_ext 0 "call_registered ''echo'' [] (Some 5000) 0 sample_world"]
  show ?thesis
    unfolding Let_def o
    by (simp add: call_registered_fields sample_world_def sample_ext_def sample_write_param_def
        int32_bytes_def)
qed

section \<open>Frames for unknown call ids\<close>

lemma answered_eq:
  "receive_frame sample_ext pong_frame pong_payload one_call = Inr answered
   \<and> calls answered = [] \<and> reader answered = AwaitPrefix
   \<and> map effects (heap answered) = [[ClearTimeout, EmitDone [0] None (Some (JString ''pong''))]]"
  by (simp add: answered_def receive_frame_def on_prefix_def on_payload_def Let_def
      pong_frame_def pong_payload_def one_call_eq sample_ext_def sample_readInt_def
      sample_readString_def sample_readFields_def int32_of_bytes_def char_of_eq_iff
      nextResponse_def modify_def setValue_def callComplete_def clear_timer_def emit_done_def)

text \<open>A frame whose id is not in the table makes the reader throw, whatever its flag and
  payload are.\<close>

lemma reader_throws_on_unknown_id:
  assumes "map_of (calls w) (id_field d) = None"
  shows "\<exists>t. receive_frame ext d buf w = Inl t"
  using assms
  by (auto simp: receive_frame_def on_prefix_def on_payload_def Let_def
      split: option.splits sum.splits)

text \<open>
  C3. The code does not do what the claim says. The connection has one call; its response
  arrives and completes it, which removes id 0 from the table. When the same frame arrives
  once more, its id is unknown: \<^verbatim>\<open>call\<close> is \<^verbatim>\<open>undefined\<close> in the callback of
  \<^verbatim>\<open>readBytes\<close>, and evaluating \<^verbatim>\<open>call.id\<close> throws instead of ignoring the frame.
\<close>

theorem C3_unknown_id_throws:
  "receive_frame sample_ext pong_frame pong_payload one_call = Inr answered
   \<and> map_of (calls answered) (id_field pong_frame) = None
   \<and> receive_frame sample_ext pong_frame pong_payload answered = Inl (TypeError ''call.id'')"
proof -
  have a: "receive_frame sample_ext pong_frame pong_payload one_call = Inr answered"
    "calls answered = []" "reader answered = AwaitPrefix"
    using answered_eq by simp_all
  have "on_prefix sample_ext None (Some pong_frame) answered
      = Inr (answered\<lparr>calls := [], reader := AwaitPayload 9 None False\<rparr>)"
    by (simp add: on_prefix_def Let_def a(2) pong_frame_def sample_ext_def)
  then have "receive_frame sample_ext pong_frame pong_payload answered = Inl (TypeError ''call.id'')"
    by (simp add: receive_frame_def on_payload_def pong_payload_def sample_ext_def
        sample_readInt_def sample_readString_def sample_readFields_def)
  with a show ?thesis by simp
qed

text \<open>The late response of the claim's example is harmless for a different reason: a Call
  that timed out stays in the table, so its response still finds it, and \<open>setValue\<close> on
  a done Call emits nothing.\<close>

lemma late_response_after_timeout:
  "case timer_fires 0 one_call of
     None \<Rightarrow> False
   | Some w1 \<Rightarrow>
       calls w1 = [(0, 0)]
     \<and> (case receive_frame sample_ext pong_frame pong_payload w1 of
           Inl t \<Rightarrow> False
         | Inr w2 \<Rightarrow>
             map emissions (heap w2)
               = [[EmitDone [0] (Some (RemoteCallTimeoutException ''5000 ms timeout'')) None]])"
  by (simp add: timer_fires_def receive_frame_def on_prefix_def on_payload_def Let_def
      pong_frame_def pong_payload_def one_call_eq sample_ext_def sample_readInt_def
      sample_readString_def sample_readFields_def int32_of_bytes_def char_of_eq_iff
      nextResponse_def modify_def setValue_def callComplete_def clear_timer_def emit_done_def
      handleTimeoutit_def setException_def emissions_def number_to_string_def decimal_digits.simps digit_char_def)

section \<open>Call identities\<close>

lemma construct_all_heap:
  "Call_Counter w \<le> 2 ^ 53 \<Longrightarrow>
   length (heap (construct_all ps w)) = length (heap w) + length ps
   \<and> (\<forall>i < length (heap w). heap (construct_all ps w) ! i = heap w ! i)
   \<and> (\<forall>i < length ps.
         id_call (heap (construct_all ps w) ! (length (heap w) + i))
           = min (Call_Counter w + int i) (2 ^ 53))"
proof (induction ps arbitrary: w)
  case Nil
  then show ?case by simp
next
  case (Cons a ps)
  obtain p t where a: "a = (p, t)" by (cases a)
  let ?w1 = "snd (new_Call p t w)"
  let ?h = "heap (construct_all ps ?w1)"
  have c1: "Call_Counter ?w1 = js_incr (Call_Counter w)"
    and l1: "length (heap ?w1) = Suc (length (heap w))"
    and old: "\<And>i. i < length (heap w) \<Longrightarrow> heap ?w1 ! i = heap w ! i"
    and new: "id_call (heap ?w1 ! length (heap w)) = Call_Counter w"
    by (simp_all add: new_Call_def Let_def nth_append)
  have le: "Call_Counter ?w1 \<le> 2 ^ 53"
    using Cons.prems by (simp add: c1 js_incr_def)
  note ih = Cons.IH [OF le]
  have len: "length ?h = length (heap w) + length (a # ps)"
    using ih l1 by simp
  have keep: "\<forall>i < length (heap w). ?h ! i = heap w ! i"
    using ih l1 old by simp
  have ids: "\<forall>i < length (a # ps).
      id_call (?h ! (length (heap w) + i)) = min (Call_Counter w + int i) (2 ^ 53)"
  proof (intro allI impI)
    fix i assume i: "i < length (a # ps)"
    show "id_call (?h ! (length (heap w) + i)) = min (Call_Counter w + int i) (2 ^ 53)"
    proof (cases i)
      case 0
      have "?h ! length (heap w) = heap ?w1 ! length (heap w)"
        using ih l1 by simp
      then show ?thesis using 0 new Cons.prems by simp
    next
      case (Suc j)
      then have j: "j < length ps" using i by simp
      have "id_call (?h ! (length (heap ?w1) + j)) = min (Call_Counter ?w1 + int j) (2 ^ 53)"
        using ih j by blast
      moreover have "min (js_incr (Call_Counter w) + int j) (2 ^ 53)
          = min (Call_Counter w + int (Suc j)) (2 ^ 53 :: int)"
        using Cons.prems by (simp add: js_incr_def min_def)
      ultimately show ?thesis using Suc l1 c1 by simp
    qed
  qed
  from len keep ids show ?case by (simp add: a)
qed

text \<open>
  C8 (as amended). While the counter is small enough that none of the Calls is
  constructed with the counter already at \<open>2 ^ 53\<close> and stuck there, the Calls constructed
  one after the other get the consecutive identities \<open>Call_Counter\<close>,
  \<open>Call_Counter + 1\<close>, ...: they increase strictly and none is used twice.
\<close>

theorem C8_call_ids_increase:
  assumes "Call_Counter w + int (length ps) \<le> 2 ^ 53 + 1"
  shows "map id_call (drop (length (heap w)) (heap (construct_all ps w)))
           = map (\<lambda>k. Call_Counter w + int k) [0..<length ps]
       \<and> sorted_wrt (<) (map id_call (drop (length (heap w)) (heap (construct_all ps w))))
       \<and> distinct (map id_call (drop (length (heap w)) (heap (construct_all ps w))))"
proof (cases "ps = []")
  case True
  then show ?thesis by simp
next
  case False
  then have le: "Call_Counter w \<le> 2 ^ 53" using assms by (cases ps) auto
  note h = construct_all_heap [OF le, of ps]
  have eq: "map id_call (drop (length (heap w)) (heap (construct_all ps w)))
      = map (\<lambda>k. Call_Counter w + int k) [0..<length ps]"
  proof (rule nth_equalityI)
    show "length (map id_call (drop (length (heap w)) (heap (construct_all ps w))))
        = length (map (\<lambda>k. Call_Counter w + int k) [0..<length ps])"
      using h by simp
  next
    fix i assume "i < length (map id_call (drop (length (heap w)) (heap (construct_all ps w))))"
    then have i: "i < length ps" using h by simp
    then have "id_call (heap (construct_all ps w) ! (length (heap w) + i))
        = min (Call_Counter w + int i) (2 ^ 53)"
      using h by blast
    also have "\<dots> = Call_Counter w + int i" using assms i by simp
    finally show "map id_call (drop (length (heap w)) (heap (construct_all ps w))) ! i
        = map (\<lambda>k. Call_Counter w + int k) [0..<length ps] ! i"
      using i h by simp
  qed
  have s: "sorted_wrt (<) (map (\<lambda>k. Call_Counter w + int k) [0..<length ps])"
    by (simp add: sorted_wrt_map sorted_wrt_iff_nth_less)
  have d: "distinct (map (\<lambda>k. Call_Counter w + int k) [0..<length ps])"
    by (simp add: distinct_map inj_on_def)
  from eq s d show ?thesis by simp
qed

theorem C8_witness:
  "Call_Counter sample_world + int (length [(\<lparr>method_inv = ''get'', parameters = []\<rparr>, 5000 :: int),
       (\<lparr>method_inv = ''put'', parameters = []\<rparr>, 0), (\<lparr>method_inv = ''get'', parameters = []\<rparr>, 10)])
     \<le> 2 ^ 53 + 1
   \<and> map id_call (heap (construct_all [(\<lparr>method_inv = ''get'', parameters = []\<rparr>, 5000),
       (\<lparr>method_inv = ''put'', parameters = []\<rparr>, 0), (\<lparr>method_inv = ''get'', parameters = []\<rparr>, 10)]
       sample_world)) = [0, 1, 2]"
proof -
  have a: "Call_Counter sample_world + int (length [(\<lparr>method_inv = ''get'', parameters = []\<rparr>, 5000 :: int),
       (\<lparr>method_inv = ''put'', parameters = []\<rparr>, 0), (\<lparr>method_inv = ''get'', parameters = []\<rparr>, 10)])
     \<le> 2 ^ 53 + 1"
    by (simp add: sample_world_def)
  have u: "[0..<3] = [0, 1, 2]" by (simp add: upt_rec)
  from C8_call_ids_increase [OF a] a show ?thesis
    by (simp add: sample_world_def u)
qed

text \<open>The claim as stated fails once the counter has reached \<open>2 ^ 53\<close>: of
  \<open>2 ^ 53 + 2\<close> Calls constructed from the start of the process, the last two have the
  same identity.\<close>

theorem C8_counterexample:
  "id_call (heap (construct_all (replicate (2 ^ 53 + 2) (\<lparr>method_inv = ''get'', parameters = []\<rparr>, 5000))
       sample_world) ! (2 ^ 53))
   = id_call (heap (construct_all (replicate (2 ^ 53 + 2) (\<lparr>method_inv = ''get'', parameters = []\<rparr>, 5000))
       sample_world) ! (2 ^ 53 + 1))"
proof -
  let ?h = "heap (construct_all (replicate (2 ^ 53 + 2) (\<lparr>method_inv = ''get'', parameters = []\<rparr>, 5000))
       sample_world)"
  have le: "Call_Counter sample_world \<le> 2 ^ 53" by (simp add: sample_world_def)
  have s: "Call_Counter sample_world = 0" "length (heap sample_world) = 0"
    by (simp_all add: sample_world_def)
  from construct_all_heap [OF le, of "replicate (2 ^ 53 + 2) (\<lparr>method_inv = ''get'', parameters = []\<rparr>, 5000)"]
  have n: "\<forall>i < 2 ^ 53 + 2. id_call (?h ! i) = min (int i) (2 ^ 53)"
    unfolding s by simp
  have "id_call (?h ! (2 ^ 53)) = 2 ^ 53" using n [rule_format, of "2 ^ 53"] by simp
  moreover have "id_call (?h ! (2 ^ 53 + 1)) = 2 ^ 53" using n [rule_format, of "2 ^ 53 + 1"] by simp
  ultimately show ?thesis by simp
qed

section \<open>Deadline timers\<close>

lemma callComplete_no_timer: "timer c = None \<Longrightarrow> timer (callComplete c) = None"
  by (simp add: callComplete_def clear_timer_def emit_done_def Let_def)

lemma call_methods_no_timer:
  "timer c = None \<Longrightarrow> timer (setException e c) = None"
  "timer c = None \<Longrightarrow> timer (setValue v c) = None"
  "timer c = None \<Longrightarrow> timer (handleTimeoutit c) = None"
  by (simp_all add: setException_def setValue_def handleTimeoutit_def callComplete_no_timer)

lemma modify_no_timer:
  assumes "no_timer r w" and "\<And>c. timer c = None \<Longrightarrow> timer (f c) = None"
  shows "no_timer r (modify r' f w)"
  using assms by (auto simp: no_timer_def modify_frame modify_heap)

lemma cleanup_loop_no_timer:
  "no_timer r w \<Longrightarrow> no_timer r (cleanup_loop err t w)"
proof (induction err t w rule: cleanup_loop.induct)
  case (1 err w)
  then show ?case by simp
next
  case (2 err k r' t w)
  have "no_timer r (modify r' (setException err) w)"
    using "2.prems" by (rule modify_no_timer) (rule call_methods_no_timer)
  then show ?case using "2.IH" by simp
qed

lemma no_timer_cong:
  "heap w' = heap w \<Longrightarrow> no_timer r w' = no_timer r w"
  by (simp add: no_timer_def)

lemma cleanupCalls_no_timer: "no_timer r w \<Longrightarrow> no_timer r (cleanupCalls err w)"
proof -
  assume a: "no_timer r w"
  have "no_timer r (w\<lparr>calls := []\<rparr>)" using a by (simp add: no_timer_def)
  then show ?thesis by (simp add: cleanupCalls_def Let_def cleanup_loop_no_timer)
qed

lemma handleClose_no_timer: "no_timer r w \<Longrightarrow> no_timer r (handleClose w)"
proof -
  assume a: "no_timer r w"
  have "no_timer r (w\<lparr>closed := True\<rparr>)" using a by (simp add: no_timer_def)
  then have "no_timer r (cleanupCalls (closed_error w) (w\<lparr>closed := True\<rparr>))"
    by (rule cleanupCalls_no_timer)
  then show ?thesis by (simp add: handleClose_unfold no_timer_def)
qed

lemma sendParam_heap: "heap (sendParam ext r w) = heap w"
  by (simp add: sendParam_def Let_def)

lemma call_no_timer: "no_timer r w \<Longrightarrow> no_timer r (call ext m ps t cb w)"
proof -
  assume a: "no_timer r w"
  have "no_timer r (call_registered m ps t cb w)"
    using a by (simp add: no_timer_def call_registered_fields nth_append)
  then show ?thesis
    by (simp add: call_unfold handleClose_no_timer no_timer_cong [OF sendParam_heap])
qed

lemma close_modify_no_timer:
  "no_timer r w \<Longrightarrow> no_timer r (close_socket (modify r' (setException e) w))"
  using modify_no_timer [of r w "setException e" r'] call_methods_no_timer(1)
  by (simp add: close_socket_def no_timer_def)

lemma next_modify_no_timer:
  "no_timer r w \<Longrightarrow> no_timer r (nextResponse (modify r' (setException e) w))"
  "no_timer r w \<Longrightarrow> no_timer r (nextResponse (modify r' (setValue v) w))"
  using modify_no_timer [of r w "setException e" r'] modify_no_timer [of r w "setValue v" r']
    call_methods_no_timer(1,2)
  by (simp_all add: nextResponse_def no_timer_def)

lemma on_prefix_no_timer:
  assumes "no_timer r w" and "on_prefix ext err data w = Inr w'"
  shows "no_timer r w'"
proof (cases data)
  case None
  then show ?thesis using assms(2) by (simp add: on_prefix_def)
next
  case (Some d)
  define w1 where "w1 = w\<lparr>calls := AList.delete (id_field d) (calls w), reader := Idle\<rparr>"
  have w1: "no_timer r w1" using assms(1) by (simp add: no_timer_def w1_def)
  show ?thesis
  proof (cases err)
    case (Some e)
    with assms(2) \<open>data = Some d\<close> obtain r' where
      "w' = close_socket (modify r' (setException e) w1)"
      by (auto simp: on_prefix_def Let_def w1_def split: option.splits)
    then show ?thesis using close_modify_no_timer [OF w1] by simp
  next
    case None
    show ?thesis
    proof (cases "isLength ext (flag_field d)")
      case True
      with assms(2) \<open>data = Some d\<close> None
      have "w' = w1\<lparr>reader := AwaitPayload (size_field d - 9) (map_of (calls w) (id_field d))
                (isError ext (flag_field d))\<rparr>"
        by (simp add: on_prefix_def Let_def w1_def)
      then show ?thesis using w1 by (simp add: no_timer_def)
    next
      case False
      with assms(2) \<open>data = Some d\<close> None obtain r' e where
        "w' = close_socket (modify r' (setException e) w1)"
        by (auto simp: on_prefix_def Let_def w1_def split: option.splits)
      then show ?thesis using close_modify_no_timer [OF w1] by simp
    qed
  qed
qed

lemma on_payload_no_timer:
  assumes "no_timer r w" and "on_payload ext buf w = Inr w'"
  shows "no_timer r w'"
proof (cases "reader w")
  case Idle
  then show ?thesis using assms by (simp add: on_payload_def)
next
  case AwaitPrefix
  then show ?thesis using assms by (simp add: on_payload_def)
next
  case (AwaitPayload n c isErr)
  show ?thesis
  proof (cases isErr)
    case True
    with assms(2) AwaitPayload obtain r' e where
      "w' = nextResponse (modify r' (setException e) w)"
      by (auto simp: on_payload_def split: option.splits prod.splits)
    then show ?thesis using next_modify_no_timer(1) [OF assms(1)] by simp
  next
    case False
    with assms(2) AwaitPayload obtain r' v where
      "w' = nextResponse (modify r' (setValue v) w)"
      by (auto simp: on_payload_def split: option.splits prod.splits)
    then show ?thesis using next_modify_no_timer(2) [OF assms(1)] by simp
  qed
qed

lemma timer_fires_Some:
  "timer_fires r' w = Some w' \<Longrightarrow>
   timer (heap w ! r') = Some Active
   \<and> w' = modify r' (\<lambda>c. handleTimeoutit (c\<lparr>timer := Some Inactive\<rparr>)) w"
  unfolding timer_fires_def by (cases "r' < length (heap w) \<and> timer (heap w ! r') = Some Active") simp_all

lemma timer_fires_no_timer:
  assumes "no_timer r w"
  shows "timer_fires r w = None"
    and "timer_fires r' w = Some w' \<Longrightarrow> no_timer r w'"
proof -
  show "timer_fires r w = None" using assms by (simp add: timer_fires_def no_timer_def)
  assume f: "timer_fires r' w = Some w'"
  note s = timer_fires_Some [OF f]
  have ne: "r' \<noteq> r" using s assms by (auto simp: no_timer_def)
  have "heap w' ! r = heap w ! r" "length (heap w') = length (heap w)"
    using s ne by (simp_all add: modify_heap modify_frame)
  then show "no_timer r w'" using assms by (simp add: no_timer_def)
qed

lemma step_no_timer:
  assumes "no_timer r w" and "step ext e w = Some res"
  shows "e \<noteq> Timer_fired r \<and> (\<forall>w'. res = Inr w' \<longrightarrow> no_timer r w')"
proof (cases e)
  case (Call_issued m ps t cb)
  then have "res = Inr (call ext m ps t cb w)" using assms(2) by simp
  then show ?thesis using Call_issued call_no_timer [OF assms(1)] by simp
next
  case Socket_close
  then have "res = Inr (handleClose w)" using assms(2) by simp
  then show ?thesis using Socket_close handleClose_no_timer [OF assms(1)] by simp
next
  case (Socket_error x)
  then have "res = Inr (cleanupCalls x w)" using assms(2) by (simp add: handleError_def)
  then show ?thesis using Socket_error cleanupCalls_no_timer [OF assms(1)] by simp
next
  case (Prefix_read err data)
  then have "res = on_prefix ext err data w" using assms(2) by (simp split: if_splits)
  then show ?thesis using Prefix_read on_prefix_no_timer [OF assms(1)] by simp
next
  case (Payload_read buf)
  then have "res = on_payload ext buf w"
    using assms(2) by (cases "reader w") simp_all
  then show ?thesis using Payload_read on_payload_no_timer [OF assms(1)] by simp
next
  case (Timer_fired r')
  then obtain w1 where f: "timer_fires r' w = Some w1" and res: "res = Inr w1"
    using assms(2) by (cases "timer_fires r' w") simp_all
  have "r' \<noteq> r" using f timer_fires_no_timer(1) [OF assms(1)] by auto
  then show ?thesis using Timer_fired res timer_fires_no_timer(2) [OF assms(1) f] by simp
qed

lemma run_no_timer:
  "no_timer r w \<Longrightarrow> run ext es w = Some res \<Longrightarrow>
   Timer_fired r \<notin> set es \<and> (\<forall>w'. res = Inr w' \<longrightarrow> no_timer r w')"
proof (induction es arbitrary: w)
  case Nil
  then show ?case by auto
next
  case (Cons e es)
  from Cons.prems(2) obtain res1 where s: "step ext e w = Some res1"
    by (auto split: option.splits)
  note st = step_no_timer [OF Cons.prems(1) s]
  show ?case
  proof (cases res1)
    case (Inl t)
    then have "es = []" "res = Inl t" using Cons.prems(2) s by (auto split: if_splits)
    then show ?thesis using st by auto
  next
    case (Inr w1)
    then have r: "run ext es w1 = Some res" using Cons.prems(2) s by simp
    have "no_timer r w1" using st Inr by simp
    from Cons.IH [OF this r] st show ?thesis by auto
  qed
qed

text \<open>
  C9 (as amended). When the timeout argument of \<open>call\<close> is negative, or is zero or
  absent while the Connection's own \<open>rpcTimeout\<close> is not positive, the new Call has no
  timer; its timer cannot fire in the world that \<open>call\<close> returns; and in every run
  from that world the timer of this Call never fires and the Call never gets a timer.
\<close>

theorem C9_no_timer_for_nonpositive_effective_timeout:
  assumes "(\<exists>x. t = Some x \<and> x < 0) \<or> ((t = None \<or> t = Some 0) \<and> rpcTimeout w \<le> 0)"
  shows "timer (heap (call ext m ps t cb w) ! length (heap w)) = None
       \<and> timer_fires (length (heap w)) (call ext m ps t cb w) = None
       \<and> (\<forall>es res. run ext es (call ext m ps t cb w) = Some res \<longrightarrow>
             Timer_fired (length (heap w)) \<notin> set es
           \<and> (\<forall>w'. res = Inr w' \<longrightarrow> timer (heap w' ! length (heap w)) = None))"
proof -
  let ?r = "length (heap w)"
  have eff: "\<not> 0 < (case t of None \<Rightarrow> rpcTimeout w | Some x \<Rightarrow> if x = 0 then rpcTimeout w else x)"
    using assms by auto
  have "no_timer ?r (call_registered m ps t cb w)"
    using eff by (simp add: no_timer_def call_registered_fields)
  then have nt: "no_timer ?r (call ext m ps t cb w)"
    by (simp add: call_unfold handleClose_no_timer no_timer_cong [OF sendParam_heap])
  have a: "timer (heap (call ext m ps t cb w) ! ?r) = None"
    using nt by (simp add: no_timer_def)
  have b: "timer_fires ?r (call ext m ps t cb w) = None"
    by (rule timer_fires_no_timer(1) [OF nt])
  have c: "\<forall>es res. run ext es (call ext m ps t cb w) = Some res \<longrightarrow>
             Timer_fired ?r \<notin> set es
           \<and> (\<forall>w'. res = Inr w' \<longrightarrow> timer (heap w' ! ?r) = None)"
    using run_no_timer [OF nt] by (simp add: no_timer_def)
  from a b c show ?thesis by blast
qed

text \<open>The claim as stated fails for the timeout argument 0: \<^verbatim>\<open>rpcTimeout || this.rpcTimeout\<close>
  replaces it by the Connection's 10000 ms, the timer is started, and when it fires the
  Call completes with the timeout error.\<close>

theorem C9_counterexample:
  "timer (heap (call sample_ext ''echo'' [] (Some 0) 0 sample_world) ! 0) = Some Active
   \<and> (case run sample_ext [Call_issued ''echo'' [] (Some 0) 0, Timer_fired 0] sample_world of
         Some (Inr w') \<Rightarrow>
           map emissions (heap w')
             = [[EmitDone [0] (Some (RemoteCallTimeoutException ''10000 ms timeout'')) None]]
       | _ \<Rightarrow> False)"
proof -
  have h: "heap (call sample_ext ''echo'' [] (Some 0) 0 sample_world)
      = [\<lparr>id_call = 0, param = \<lparr>method_inv = ''echo'', parameters = []\<rparr>, value_call = None,
          error_call = None, done_call = False, startTime = 0, timeout = 10000,
          timer = Some Active, listeners = [0], effects = []\<rparr>]"
    by (simp add: call_unfold sendParam_heap call_registered_fields sample_world_def
        call_registered_def new_Call_def modify_def Let_def)
  show ?thesis
    by (simp add: h timer_fires_def modify_def handleTimeoutit_def setException_def
        callComplete_def clear_timer_def emit_done_def emissions_def number_to_string_def
        decimal_digits.simps digit_char_def)
qed

theorem C9_witness:
  "((\<exists>x. Some (- 1 :: int) = Some x \<and> x < 0)
      \<or> ((Some (- 1 :: int) = None \<or> Some (- 1 :: int) = Some 0) \<and> rpcTimeout sample_world \<le> 0))
   \<and> timer (heap (call sample_ext ''echo'' [] (Some (- 1)) 0 sample_world) ! 0) = None
   \<and> run sample_ext [Timer_fired 0] (call sample_ext ''echo'' [] (Some (- 1)) 0 sample_world) = None"
proof -
  have a: "(\<exists>x. Some (- 1 :: int) = Some x \<and> x < 0)
      \<or> ((Some (- 1 :: int) = None \<or> Some (- 1 :: int) = Some 0) \<and> rpcTimeout sample_world \<le> 0)"
    by simp
  have l: "length (heap sample_world) = 0" by (simp add: sample_world_def)
  from C9_no_timer_for_nonpositive_effective_timeout [OF a, of sample_ext "''echo''" "[]" 0]
  show ?thesis using a unfolding l by simp
qed

section \<open>Reachable worlds\<close>

lemma callComplete_is_done: "done_call (callComplete c)"
  by (simp add: callComplete_def clear_timer_def emit_done_def Let_def split: option.splits)

lemma call_methods_ok:
  "call_ok (setException e c)" "call_ok (setValue v c)" "call_ok (handleTimeoutit c)"
  by (simp_all add: call_ok_def setException_def setValue_def handleTimeoutit_def
      callComplete_is_done)

lemma wf_modify: "wf_world (modify r f w) = wf_world w"
  by (simp add: wf_world_def modify_frame)

lemma heap_ok_modify:
  assumes "\<forall>c \<in> set (heap w). call_ok c" and "\<And>c. call_ok c \<Longrightarrow> call_ok (f c)"
  shows "\<forall>c \<in> set (heap (modify r f w)). call_ok c"
proof
  fix c assume "c \<in> set (heap (modify r f w))"
  then have "c \<in> insert (f (heap w ! r)) (set (heap w))"
    using set_update_subset_insert [of "heap w" r "f (heap w ! r)"] by (auto simp: modify_def)
  then consider "c = f (heap w ! r)" "r < length (heap w)" | "c \<in> set (heap w)"
    using \<open>c \<in> set (heap (modify r f w))\<close>
    by (cases "r < length (heap w)") (auto simp: modify_def list_update_beyond)
  then show "call_ok c"
  proof cases
    case 1
    then show ?thesis using assms by simp
  next
    case 2
    then show ?thesis using assms(1) by simp
  qed
qed

lemma inv_modify:
  assumes "reachable_inv w" and "\<And>c. call_ok c \<Longrightarrow> call_ok (f c)"
  shows "reachable_inv (modify r f w)"
  using assms heap_ok_modify [of w f r] by (simp add: reachable_inv_def wf_modify)

lemma heap_ok_cleanup_loop:
  "\<forall>c \<in> set (heap w). call_ok c \<Longrightarrow> \<forall>c \<in> set (heap (cleanup_loop err t w)). call_ok c"
proof (induction err t w rule: cleanup_loop.induct)
  case (1 err w)
  then show ?case by simp
next
  case (2 err k r t w)
  have "\<forall>c \<in> set (heap (modify r (setException err) w)). call_ok c"
    using "2.prems" by (rule heap_ok_modify) (rule call_methods_ok)
  then show ?case using "2.IH" by simp
qed

lemma inv_cleanupCalls: "reachable_inv w \<Longrightarrow> reachable_inv (cleanupCalls err w)"
proof -
  assume a: "reachable_inv w"
  have c: "calls (cleanupCalls err w) = []"
    by (simp add: cleanupCalls_def Let_def cleanup_loop_frame)
  have "\<forall>c \<in> set (heap (w\<lparr>calls := []\<rparr>)). call_ok c" using a by (simp add: reachable_inv_def)
  then have "\<forall>c \<in> set (heap (cleanupCalls err w)). call_ok c"
    unfolding cleanupCalls_def Let_def by (rule heap_ok_cleanup_loop)
  then show ?thesis using wf_nil [OF c] by (simp add: reachable_inv_def)
qed

lemma inv_handleClose: "reachable_inv w \<Longrightarrow> reachable_inv (handleClose w)"
proof -
  assume a: "reachable_inv w"
  have "reachable_inv (w\<lparr>closed := True\<rparr>)"
    using a by (simp add: reachable_inv_def wf_closed)
  then have "reachable_inv (cleanupCalls (closed_error w) (w\<lparr>closed := True\<rparr>))"
    by (rule inv_cleanupCalls)
  then show ?thesis by (simp add: handleClose_unfold reachable_inv_def wf_world_def)
qed

lemma inv_call: "reachable_inv w \<Longrightarrow> reachable_inv (call ext m ps t cb w)"
proof -
  assume a: "reachable_inv w"
  have wf: "wf_world (call_registered m ps t cb w)"
    using a wf_call_registered by (simp add: reachable_inv_def)
  have "\<forall>c \<in> set (heap (call_registered m ps t cb w)). call_ok c"
    using a by (auto simp: reachable_inv_def call_registered_fields call_ok_def pending_def)
  with wf have r: "reachable_inv (call_registered m ps t cb w)" by (simp add: reachable_inv_def)
  have s: "reachable_inv (sendParam ext (length (heap w)) (call_registered m ps t cb w))"
    using r by (simp add: reachable_inv_def wf_world_def sendParam_def Let_def)
  show ?thesis using r s inv_handleClose by (simp add: call_unfold)
qed

lemma delete_snd_distinct: "distinct (map snd t) \<Longrightarrow> distinct (map snd (AList.delete k t))"
  by (simp add: AList.delete_eq distinct_map_filter)

lemma delete_subset: "set (AList.delete k t) \<subseteq> set t"
  by (auto simp: AList.delete_eq)

lemma inv_on_prefix:
  assumes "reachable_inv w" and "on_prefix ext err data w = Inr w'"
  shows "reachable_inv w'"
proof (cases data)
  case None
  then show ?thesis using assms(2) by (simp add: on_prefix_def)
next
  case (Some d)
  define w1 where "w1 = w\<lparr>calls := AList.delete (id_field d) (calls w), reader := Idle\<rparr>"
  have w1: "reachable_inv w1"
    using assms(1) delete_snd_distinct [of "calls w" "id_field d"]
      delete_subset [of "id_field d" "calls w"]
    by (auto simp: reachable_inv_def wf_world_def w1_def)
  have cl: "\<And>r' e. reachable_inv (close_socket (modify r' (setException e) w1))"
  proof -
    fix r' e
    have "reachable_inv (modify r' (setException e) w1)"
      using w1 by (rule inv_modify) (rule call_methods_ok)
    then show "reachable_inv (close_socket (modify r' (setException e) w1))"
      by (simp add: close_socket_def reachable_inv_def wf_world_def)
  qed
  show ?thesis
  proof (cases err)
    case (Some e)
    with assms(2) \<open>data = Some d\<close> obtain r' where
      "w' = close_socket (modify r' (setException e) w1)"
      by (auto simp: on_prefix_def Let_def w1_def split: option.splits)
    then show ?thesis using cl by simp
  next
    case None
    show ?thesis
    proof (cases "isLength ext (flag_field d)")
      case True
      with assms(2) \<open>data = Some d\<close> None
      have "w' = w1\<lparr>reader := AwaitPayload (size_field d - 9) (map_of (calls w) (id_field d))
                (isError ext (flag_field d))\<rparr>"
        by (simp add: on_prefix_def Let_def w1_def)
      then show ?thesis using w1 by (simp add: reachable_inv_def wf_world_def)
    next
      case False
      with assms(2) \<open>data = Some d\<close> None obtain r' e where
        "w' = close_socket (modify r' (setException e) w1)"
        by (auto simp: on_prefix_def Let_def w1_def split: option.splits)
      then show ?thesis using cl by simp
    qed
  qed
qed

lemma inv_on_payload:
  assumes "reachable_inv w" and "on_payload ext buf w = Inr w'"
  shows "reachable_inv w'"
proof -
  have nx: "\<And>r' f. (\<And>c. call_ok c \<Longrightarrow> call_ok (f c))
      \<Longrightarrow> reachable_inv (nextResponse (modify r' f w))"
  proof -
    fix r' and f :: "call \<Rightarrow> call"
    assume "\<And>c. call_ok c \<Longrightarrow> call_ok (f c)"
    with assms(1) have "reachable_inv (modify r' f w)" by (rule inv_modify)
    then show "reachable_inv (nextResponse (modify r' f w))"
      by (simp add: nextResponse_def reachable_inv_def wf_world_def)
  qed
  show ?thesis
  proof (cases "reader w")
    case Idle
    then show ?thesis using assms by (simp add: on_payload_def)
  next
    case AwaitPrefix
    then show ?thesis using assms by (simp add: on_payload_def)
  next
    case (AwaitPayload n c isErr)
    show ?thesis
    proof (cases isErr)
      case True
      with assms(2) AwaitPayload obtain r' e where
        "w' = nextResponse (modify r' (setException e) w)"
        by (auto simp: on_payload_def split: option.splits prod.splits)
      then show ?thesis using nx [of "setException e" r'] call_methods_ok(1) by simp
    next
      case False
      with assms(2) AwaitPayload obtain r' v where
        "w' = nextResponse (modify r' (setValue v) w)"
        by (auto simp: on_payload_def split: option.splits prod.splits)
      then show ?thesis using nx [of "setValue v" r'] call_methods_ok(2) by simp
    qed
  qed
qed

lemma inv_timer_fires:
  assumes "reachable_inv w" and "timer_fires r w = Some w'"
  shows "reachable_inv w'"
proof -
  have "w' = modify r (\<lambda>c. handleTimeoutit (c\<lparr>timer := Some Inactive\<rparr>)) w"
    using timer_fires_Some [OF assms(2)] by simp
  then show ?thesis using inv_modify [OF assms(1), of "\<lambda>c. handleTimeoutit (c\<lparr>timer := Some Inactive\<rparr>)" r]
    by (simp add: call_methods_ok)
qed

lemma inv_step:
  assumes "reachable_inv w" and "step ext e w = Some (Inr w')"
  shows "reachable_inv w'"
proof (cases e)
  case (Call_issued m ps t cb)
  then have "w' = call ext m ps t cb w" using assms(2) by simp
  then show ?thesis using inv_call [OF assms(1)] by simp
next
  case Socket_close
  then have "w' = handleClose w" using assms(2) by simp
  then show ?thesis using inv_handleClose [OF assms(1)] by simp
next
  case (Socket_error x)
  then have "w' = cleanupCalls x w" using assms(2) by (simp add: handleError_def)
  then show ?thesis using inv_cleanupCalls [OF assms(1)] by simp
next
  case (Prefix_read err data)
  then have "on_prefix ext err data w = Inr w'" using assms(2) by (simp split: if_splits)
  then show ?thesis using inv_on_prefix [OF assms(1)] by simp
next
  case (Payload_read buf)
  then have "on_payload ext buf w = Inr w'"
    using assms(2) by (cases "reader w") simp_all
  then show ?thesis using inv_on_payload [OF assms(1)] by simp
next
  case (Timer_fired r)
  then have "timer_fires r w = Some w'"
    using assms(2) by (cases "timer_fires r w") simp_all
  then show ?thesis using inv_timer_fires [OF assms(1)] by simp
qed

text \<open>Every world reached by a run from a world with an empty heap and an empty table
  has a well-formed table, and each of its Calls is either done or pending.\<close>

lemma inv_run:
  "reachable_inv w \<Longrightarrow> run ext es w = Some (Inr w') \<Longrightarrow> reachable_inv w'"
proof (induction es arbitrary: w)
  case Nil
  then show ?case by simp
next
  case (Cons e es)
  from Cons.prems(2) obtain w1 where s: "step ext e w = Some (Inr w1)" and r: "run ext es w1 = Some (Inr w')"
    by (auto split: option.splits sum.splits if_splits)
  from Cons.IH [OF inv_step [OF Cons.prems(1) s] r] show ?case .
qed

lemma inv_initial: "heap w = [] \<Longrightarrow> calls w = [] \<Longrightarrow> reachable_inv w"
  by (simp add: reachable_inv_def wf_world_def)

section \<open>Draining while callbacks issue calls\<close>

text \<open>Failing a Call notifies the callbacks that it has if it was not done, and none
  otherwise.\<close>

lemma effects_setException:
  "effects (setException e c)
     = effects c @ (case timer c of None \<Rightarrow> [] | Some t \<Rightarrow> [ClearTimeout])
         @ (if done_call c then [] else [EmitDone (listeners c) (Some e) (value_call c)])"
  by (simp add: setException_def callComplete_def clear_timer_def emit_done_def Let_def
      split: option.splits)

lemma notified_setException:
  "notified (drop (length (effects c)) (effects (setException e c))) = completions e c"
  by (simp add: effects_setException completions_def split: option.splits)

lemma modify_notify_setException:
  assumes "r < length (heap w)"
  shows "modify_notify react prog r (setException e) w
           = run_listeners react prog (completions e (heap w ! r)) (modify r (setException e) w)"
  using assms by (simp add: modify_notify_def Let_def modify_heap notified_setException)











lemma call_r_closed:
  "closed w \<Longrightarrow>
   call_r react prog ext m ps t cb w = handleClose_r react prog (call_registered m ps t cb w)"
  by (simp add: call_r_def call_registered_def new_Call_def modify_def Let_def)



























text \<open>On a closed Connection \<^verbatim>\<open>call\<close> fails the new Call before it returns, and notifies
  its callback there. A callback that answers every failure with one more call therefore
  keeps the \<^verbatim>\<open>'close'\<close> handler from returning, whatever the bound on the nesting: the
  first Call of the table is failed, and no other Call is reached. This is why the
  statements about a closed Connection are about the drains that return.\<close>

lemma handleClose_r_first:
  assumes "calls w = (k, r) # t" and "r < length (heap w)" and "\<not> done_call (heap w ! r)"
    and "listeners (heap w ! r) = cb # ls"
    and "react (prog cb (Some (closed_error w)) (value_call (heap w ! r)))
           (modify r (setException (closed_error w)) (w\<lparr>closed := True, calls := []\<rparr>)) = None"
  shows "handleClose_r react prog w = None"
proof -
  let ?w1 = "w\<lparr>closed := True, calls := []\<rparr>"
  have ce: "closed_error (w\<lparr>closed := True\<rparr>) = closed_error w" by (simp add: closed_error_def)
  have r: "r < length (heap ?w1)" using assms(2) by simp
  have "modify_notify react prog r (setException (closed_error w)) ?w1 = None"
    unfolding modify_notify_setException [OF r]
    using assms(3,4,5) by (simp add: completions_def)
  then show ?thesis
    using assms(1) by (simp add: handleClose_r_def cleanupCalls_r_def Let_def ce)
qed

lemma retry_forever:
  "calls w = (k, r) # t \<Longrightarrow> r < length (heap w) \<Longrightarrow> \<not> done_call (heap w ! r)
   \<Longrightarrow> listeners (heap w ! r) \<noteq> []
   \<Longrightarrow> handleClose_r (react_r n insistent_program ext) insistent_program w = None"
proof (induction n arbitrary: w k r t)
  case 0
  from "0.prems"(4) obtain cb ls where ls: "listeners (heap w ! r) = cb # ls"
    by (cases "listeners (heap w ! r)") auto
  show ?case
    by (rule handleClose_r_first [OF "0.prems"(1-3) ls]) (simp add: insistent_program_def)
next
  case (Suc n)
  from Suc.prems(4) obtain cb ls where ls: "listeners (heap w ! r) = cb # ls"
    by (cases "listeners (heap w ! r)") auto
  let ?w2 = "modify r (setException (closed_error w)) (w\<lparr>closed := True, calls := []\<rparr>)"
  let ?w3 = "call_registered ''echo'' [] (Some 5000) cb ?w2"
  have c2: "closed ?w2" "calls ?w2 = []" by (simp_all add: modify_frame)
  have t3: "calls ?w3 = (Call_Counter ?w2, length (heap ?w2)) # []"
    by (simp add: call_registered_fields c2)
  have h3: "length (heap ?w2) < length (heap ?w3)" "\<not> done_call (heap ?w3 ! length (heap ?w2))"
    "listeners (heap ?w3 ! length (heap ?w2)) \<noteq> []"
    by (simp_all add: call_registered_fields)
  have "call_r (react_r n insistent_program ext) insistent_program ext ''echo'' [] (Some 5000) cb ?w2
          = None"
    unfolding call_r_closed [OF c2(1)] by (rule Suc.IH [OF t3 h3])
  then have "react_r (Suc n) insistent_program ext
       (insistent_program cb (Some (closed_error w)) (value_call (heap w ! r))) ?w2 = None"
    by (simp add: insistent_program_def)
  then show ?case
    by (rule handleClose_r_first [OF Suc.prems(1-3) ls])
qed

lemma retry_forever_sample:
  "handleClose_r (react_r n insistent_program sample_ext) insistent_program two_calls = None"
  by (rule retry_forever [of two_calls 0 0 "[(1, 1)]"]) (simp_all add: two_calls_eq)

end
